theory Spec2Isabelle
  imports Main "HOL-Library.Char_ord" "HOL-Library.List_Lexorder" "HOL-Library.AList"
begin

section \<open>The AgeToken attestor and validator\<close>

text \<open>
  The development embeds the two programs of the AgeToken proof of concept:
  the attestor (\<^verbatim>\<open>signToken\<close> and the \<^verbatim>\<open>POST /issue_token\<close> handler behind
  \<^verbatim>\<open>express.json()\<close>, JavaScript) and the validator (\<^verbatim>\<open>validate_compact_token\<close>,
  Python).  Both are short; most of what they compute is done by library
  calls (\<^verbatim>\<open>JSON.stringify\<close> with an array replacer, \<^verbatim>\<open>JSON.parse\<close>, \<^verbatim>\<open>base64url\<close>,
  \<^verbatim>\<open>str.split\<close>, \<^verbatim>\<open>json.loads\<close>, Ed25519), which are modelled here by their
  documented behaviour.

  Conventions of the model:
  \<^item> Text and byte buffers are both \<^typ>\<open>string\<close>: a text is identified with its
    UTF-8 octets, so \<^verbatim>\<open>Buffer.from(payload)\<close> and \<^verbatim>\<open>.encode('utf-8')\<close> are
    identities.
  \<^item> Numbers are integers (the token's timestamps); JavaScript prints them in
    decimal and Python reads them back as \<^verbatim>\<open>int\<close>.  In a request they are the
    integers that JavaScript represents exactly, of magnitude at most
    \<^verbatim>\<open>2^53 - 1\<close>.  Numerals with a fraction or an exponent, \<^verbatim>\<open>NaN\<close> and \<^verbatim>\<open>Infinity\<close>
    denote floats, and \<^verbatim>\<open>\uXXXX\<close> escapes above \<^verbatim>\<open>007f\<close> denote non-ASCII text;
    both lie outside the model, and the decoder reports them with the
    separate outcome \<open>Unmodelled\<close>.  This outcome stands for no behaviour of
    Python: on such a payload the model is silent about the validator.
  \<^item> The clock (\<^verbatim>\<open>Date.now\<close>, \<^verbatim>\<open>time.time\<close>), the random token id (\<^verbatim>\<open>uuidv4\<close>),
    the Ed25519 operations (\<^verbatim>\<open>nacl.sign.detached\<close>, \<^verbatim>\<open>VerifyKey.verify\<close>) and the
    validator's \<^verbatim>\<open>base64url.decode\<close> are parameters of the functions that use
    them.  So are the depths to which the two runtimes follow the nesting of
    a JSON value: the stack of the JavaScript engine and the recursion limit
    of the Python interpreter.
\<close>

subsection \<open>JSON values\<close>

text \<open>
  An object is the list of its members in insertion order; the keys of a
  JavaScript object or a Python dict are pairwise distinct (\<open>wf_json\<close>).
\<close>

datatype json =
    JNull
  | JBool bool
  | JNum int
  | JStr string
  | JArr "json list"
  | JObj "(string \<times> json) list"

fun wf_json :: "json \<Rightarrow> bool" where
  "wf_json (JArr xs) = list_all wf_json xs"
| "wf_json (JObj m) = (distinct (map fst m) \<and> list_all (\<lambda>kv. wf_json (snd kv)) m)"
| "wf_json _ = True"

text \<open>
  Two values are the same logical payload when they differ at most in the
  order of the members of their objects, at any depth.
\<close>

fun same_payload :: "json \<Rightarrow> json \<Rightarrow> bool" where
  "same_payload (JObj m1) (JObj m2) =
     (set (map fst m1) = set (map fst m2) \<and>
      list_all (\<lambda>kv1. list_all (\<lambda>kv2. fst kv1 \<noteq> fst kv2 \<or> same_payload (snd kv1) (snd kv2)) m2) m1)"
| "same_payload (JArr xs) (JArr ys) = list_all2 same_payload xs ys"
| "same_payload a b = (a = b)"

subsection \<open>\<^verbatim>\<open>JSON.stringify(value, replacerArray)\<close>\<close>

definition dquote :: char where
  "dquote = CHR 0x22"

definition backslash :: char where
  "backslash = CHR 0x5C"

fun digits :: "nat \<Rightarrow> string" where
  "digits n = (if n < 10 then [char_of (48 + n)] else digits (n div 10) @ [char_of (48 + n mod 10)])"

definition NumberToString :: "int \<Rightarrow> string" where
  "NumberToString i = (if i < 0 then CHR ''-'' # digits (nat (- i)) else digits (nat i))"

definition hexdigit :: "nat \<Rightarrow> char" where
  "hexdigit n = (if n < 10 then char_of (48 + n) else char_of (87 + n))"

text \<open>
  ECMAScript's QuoteJSONString: the two-character escapes, \<^verbatim>\<open>\u00xx\<close> (lower
  case) for the other control characters, every other code unit as it is.
\<close>

definition QuoteJSONChar :: "char \<Rightarrow> string" where
  "QuoteJSONChar c =
     (if c = CHR 0x08 then [backslash, CHR ''b'']
      else if c = CHR 0x09 then [backslash, CHR ''t'']
      else if c = CHR 0x0A then [backslash, CHR ''n'']
      else if c = CHR 0x0C then [backslash, CHR ''f'']
      else if c = CHR 0x0D then [backslash, CHR ''r'']
      else if c = dquote then [backslash, dquote]
      else if c = backslash then [backslash, backslash]
      else if (of_char c :: nat) < 32
        then [backslash, CHR ''u'', CHR ''0'', CHR ''0'',
              hexdigit (of_char c div 16), hexdigit (of_char c mod 16)]
      else [c])"

definition QuoteJSONString :: "string \<Rightarrow> string" where
  "QuoteJSONString s = dquote # concat (map QuoteJSONChar s) @ [dquote]"

fun intercalate :: "'a list \<Rightarrow> 'a list list \<Rightarrow> 'a list" where
  "intercalate sep [] = []"
| "intercalate sep [x] = x"
| "intercalate sep (x # y # ys) = x @ sep @ intercalate sep (y # ys)"

text \<open>
  SerializeJSONProperty with a property list \<open>K\<close> and no indentation.  The
  list is in force for every object that is serialised, the nested ones
  included: an object contributes, for each \<open>P\<close> of \<open>K\<close> in the order of \<open>K\<close>,
  the member \<open>P\<close> if it has one.  Arrays contribute all their elements.
\<close>

function SerializeJSONProperty :: "string list \<Rightarrow> json \<Rightarrow> string" where
  "SerializeJSONProperty K JNull = ''null''"
| "SerializeJSONProperty K (JBool b) = (if b then ''true'' else ''false'')"
| "SerializeJSONProperty K (JNum i) = NumberToString i"
| "SerializeJSONProperty K (JStr s) = QuoteJSONString s"
| "SerializeJSONProperty K (JArr xs) =
     ''['' @ intercalate '','' (map (SerializeJSONProperty K) xs) @ '']''"
| "SerializeJSONProperty K (JObj m) =
     ''{'' @ intercalate '',''
        (List.map_filter
           (\<lambda>P. map_option (\<lambda>v. QuoteJSONString P @ '':'' @ SerializeJSONProperty K v)
                  (map_of m P)) K)
      @ ''}''"
  by pat_completeness auto
termination
proof (relation "measure (\<lambda>(K, v). size v)", goal_cases)
  case 1
  show ?case by simp
next
  case (2 K xs x)
  then show ?case by (induction xs) auto
next
  case (3 K m P v)
  then have "(P, v) \<in> set m"
    by (auto dest: map_of_SomeD)
  then show ?case by (induction m) auto
qed

text \<open>
  The property list of \<^verbatim>\<open>JSON.stringify(value, array)\<close>: the strings of the
  array, each appended unless the list already has it.
\<close>

definition PropertyList :: "string list \<Rightarrow> string list" where
  "PropertyList replacer = fold (\<lambda>P K. if P \<in> set K then K else K @ [P]) replacer []"

definition JSON_stringify :: "json \<Rightarrow> string list \<Rightarrow> string" where
  "JSON_stringify v replacer = SerializeJSONProperty (PropertyList replacer) v"

text \<open>
  The same serialisation in two steps, for the proofs: \<open>select_properties K\<close>
  is the value that is left when every object keeps the members that \<open>K\<close>
  lists, in the order of \<open>K\<close>; \<open>serialize\<close> writes a value with all its
  members, as \<^verbatim>\<open>JSON.stringify(value)\<close> does.
\<close>

function select_properties :: "string list \<Rightarrow> json \<Rightarrow> json" where
  "select_properties K (JArr xs) = JArr (map (select_properties K) xs)"
| "select_properties K (JObj m) =
     JObj (List.map_filter
             (\<lambda>P. map_option (\<lambda>v. (P, select_properties K v)) (map_of m P)) K)"
| "select_properties K JNull = JNull"
| "select_properties K (JBool b) = JBool b"
| "select_properties K (JNum i) = JNum i"
| "select_properties K (JStr s) = JStr s"
  by pat_completeness auto
termination
proof (relation "measure (\<lambda>(K, v). size v)", goal_cases)
  case 1
  show ?case by simp
next
  case (2 K xs x)
  then show ?case by (induction xs) auto
next
  case (3 K m P v)
  then have "(P, v) \<in> set m"
    by (auto dest: map_of_SomeD)
  then show ?case by (induction m) auto
qed

fun serialize :: "json \<Rightarrow> string" where
  "serialize JNull = ''null''"
| "serialize (JBool b) = (if b then ''true'' else ''false'')"
| "serialize (JNum i) = NumberToString i"
| "serialize (JStr s) = QuoteJSONString s"
| "serialize (JArr xs) = ''['' @ intercalate '','' (map serialize xs) @ '']''"
| "serialize (JObj m) =
     ''{'' @ intercalate '','' (map (\<lambda>kv. QuoteJSONString (fst kv) @ '':'' @ serialize (snd kv)) m)
      @ ''}''"

subsection \<open>base64url\<close>

text \<open>
  RFC 4648, section 5, without padding, as the attestor's \<^verbatim>\<open>base64url.encode\<close>
  writes it: three octets become four characters of the URL-safe alphabet, a
  final group of one or two octets becomes two or three characters.
\<close>

definition b64_char :: "nat \<Rightarrow> char" where
  "b64_char n =
     (if n < 26 then char_of (65 + n)
      else if n < 52 then char_of (71 + n)
      else if n < 62 then char_of (n - 4)
      else if n = 62 then CHR ''-''
      else CHR ''_'')"

fun base64url_encode :: "string \<Rightarrow> string" where
  "base64url_encode [] = []"
| "base64url_encode [a] =
     (let x = (of_char a :: nat)
      in [b64_char (x div 4), b64_char (x mod 4 * 16)])"
| "base64url_encode [a, b] =
     (let x = (of_char a :: nat); y = (of_char b :: nat)
      in [b64_char (x div 4), b64_char (x mod 4 * 16 + y div 16), b64_char (y mod 16 * 4)])"
| "base64url_encode (a # b # c # rest) =
     (let x = (of_char a :: nat); y = (of_char b :: nat); z = (of_char c :: nat)
      in [b64_char (x div 4), b64_char (x mod 4 * 16 + y div 16),
          b64_char (y mod 16 * 4 + z div 64), b64_char (z mod 64)]
         @ base64url_encode rest)"

subsection \<open>The attestor: \<^verbatim>\<open>signToken\<close> and \<^verbatim>\<open>POST /issue_token\<close>\<close>

text \<open>
  \<open>detached\<close> stands for \<^verbatim>\<open>nacl.sign.detached(message, secretKey)\<close>.
  \<^verbatim>\<open>Object.keys(payloadObj).sort()\<close> is the sorted list of the member names.
\<close>

definition signToken ::
  "(string \<Rightarrow> string \<Rightarrow> string) \<Rightarrow> (string \<times> json) list \<Rightarrow> string \<Rightarrow> string" where
  "signToken detached payloadObj privateKey =
     (let payload = JSON_stringify (JObj payloadObj) (sort (map fst payloadObj));
          sig = detached payload privateKey
      in base64url_encode payload @ ''.'' @ base64url_encode sig)"

text \<open>
  The request body as \<^verbatim>\<open>express.json()\<close> leaves it: of its members the handler
  reads \<^verbatim>\<open>age\<close>, \<^verbatim>\<open>aud\<close> and \<^verbatim>\<open>nonce\<close>, each any JSON value or absent
  (\<^verbatim>\<open>undefined\<close>, here \<open>None\<close>).
\<close>

record issue_request =
  req_age :: "json option"
  req_aud :: "json option"
  req_nonce :: "json option"

datatype response = Response (status: nat) (body: json)

text \<open>JavaScript's \<^verbatim>\<open>!x\<close> on a JSON value.\<close>

fun falsy :: "json \<Rightarrow> bool" where
  "falsy JNull = True"
| "falsy (JBool b) = (b = False)"
| "falsy (JNum i) = (i = 0)"
| "falsy (JStr s) = (s = [])"
| "falsy (JArr xs) = False"
| "falsy (JObj m) = False"

definition validAgeBuckets :: "string list" where
  "validAgeBuckets = [''UNDER_13'', ''13_15'', ''16_17'', ''18_PLUS'']"

definition ttl :: int where
  "ttl = 60 * 60"

definition tokenObj :: "string \<Rightarrow> int \<Rightarrow> json \<Rightarrow> json \<Rightarrow> json \<Rightarrow> (string \<times> json) list" where
  "tokenObj tid now age aud nonce =
     [(''tid'', JStr tid),
      (''att'', JStr ''attestor.example.org''),
      (''age'', age),
      (''aud'', aud),
      (''iat'', JNum now),
      (''exp'', JNum (now + ttl)),
      (''nonce'', nonce),
      (''flags'', JObj [(''purpose'', JStr ''safety'')])]"

text \<open>
  The handler.  \<open>tid\<close> is the value of \<^verbatim>\<open>uuidv4()\<close> and \<open>now\<close> the value of
  \<^verbatim>\<open>Math.floor(Date.now() / 1000)\<close> in this call.  \<^verbatim>\<open>includes\<close> compares with
  strict equality, so only a string can be a valid age bucket.
\<close>

definition issue_token ::
  "(string \<Rightarrow> string \<Rightarrow> string) \<Rightarrow> string \<Rightarrow> string \<Rightarrow> int \<Rightarrow> issue_request \<Rightarrow> response" where
  "issue_token detached secretKey tid now req =
     (case (req_age req, req_aud req, req_nonce req) of
        (Some age, Some aud, Some nonce) \<Rightarrow>
          if falsy age \<or> falsy aud \<or> falsy nonce
            then Response 400 (JObj [(''error'', JStr ''missing fields'')])
          else if age \<notin> set (map JStr validAgeBuckets)
            then Response 400 (JObj [(''error'', JStr ''invalid age bucket'')])
          else
            (let obj = tokenObj tid now age aud nonce;
                 compact = signToken detached obj secretKey
             in Response 201 (JObj [(''token'', JStr compact),
                                    (''expires_at'', JNum (now + ttl))]))
      | _ \<Rightarrow> Response 400 (JObj [(''error'', JStr ''missing fields'')]))"

subsection \<open>The validator's library calls\<close>

text \<open>
  The exceptions the body of \<^verbatim>\<open>validate_compact_token\<close> can raise, by the call
  that raises them.  \<open>NonException\<close> stands for an exception outside the class
  \<^verbatim>\<open>Exception\<close> (\<^verbatim>\<open>SystemExit\<close>, \<^verbatim>\<open>KeyboardInterrupt\<close>, \<^verbatim>\<open>GeneratorExit\<close>), named
  by its argument; only a library call could raise one.  \<open>Unmodelled\<close> is not
  an exception of Python: it marks a payload outside the modelled fragment of
  JSON, on which the model stops.
\<close>

datatype py_exception =
    ValueError
  | Base64Error
  | BadSignatureError
  | JSONDecodeError
  | RecursionError
  | KeyError string
  | TypeError
  | NonException string
  | Unmodelled

text \<open>What \<^verbatim>\<open>except Exception\<close> catches.\<close>

fun is_Exception :: "py_exception \<Rightarrow> bool" where
  "is_Exception (NonException name) = False"
| "is_Exception Unmodelled = False"
| "is_Exception _ = True"

text \<open>\<^verbatim>\<open>s.split(sep)\<close>: one part more than there are separators.\<close>

fun str_split :: "char \<Rightarrow> string \<Rightarrow> string list" where
  "str_split sep [] = [[]]"
| "str_split sep (c # cs) =
     (if c = sep then [] # str_split sep cs
      else (case str_split sep cs of
              p # ps \<Rightarrow> (c # p) # ps
            | [] \<Rightarrow> [[c]]))"

definition b64_index :: "char \<Rightarrow> nat option" where
  "b64_index c =
     (let x = (of_char c :: nat)
      in if 65 \<le> x \<and> x \<le> 90 then Some (x - 65)
         else if 97 \<le> x \<and> x \<le> 122 then Some (x - 71)
         else if 48 \<le> x \<and> x \<le> 57 then Some (x + 4)
         else if c = CHR ''-'' then Some 62
         else if c = CHR ''_'' then Some 63
         else None)"

text \<open>
  Decoding of unpadded base64url after RFC 4648, the inverse of the attestor's
  encoding.  A character outside the alphabet and a final group of one
  character are errors; the unused low bits of a final group are ignored.
  The validator's own decoder, \<^verbatim>\<open>base64url.decode\<close> of a Python module that the
  repository does not contain, is a parameter of the validator below; this
  decoder reads the payload of a token in the statements (\<open>token_payload\<close>)
  and is one instance of that parameter.
\<close>

fun base64url_decode :: "string \<Rightarrow> py_exception + string" where
  "base64url_decode [] = Inr []"
| "base64url_decode [a] = Inl Base64Error"
| "base64url_decode [a, b] =
     (case (b64_index a, b64_index b) of
        (Some p, Some q) \<Rightarrow> Inr [char_of (p * 4 + q div 16)]
      | _ \<Rightarrow> Inl Base64Error)"
| "base64url_decode [a, b, c] =
     (case (b64_index a, b64_index b, b64_index c) of
        (Some p, Some q, Some r) \<Rightarrow>
          Inr [char_of (p * 4 + q div 16), char_of (q mod 16 * 16 + r div 4)]
      | _ \<Rightarrow> Inl Base64Error)"
| "base64url_decode (a # b # c # d # rest) =
     (case (b64_index a, b64_index b, b64_index c, b64_index d) of
        (Some p, Some q, Some r, Some s) \<Rightarrow>
          (case base64url_decode rest of
             Inl e \<Rightarrow> Inl e
           | Inr bs \<Rightarrow>
               Inr (char_of (p * 4 + q div 16) # char_of (q mod 16 * 16 + r div 4)
                    # char_of (r mod 4 * 64 + s) # bs))
      | _ \<Rightarrow> Inl Base64Error)"

subsection \<open>\<^verbatim>\<open>json.loads\<close>\<close>

text \<open>
  The decoder reads the text into tokens and the tokens into a value.  White
  space (space, tab, line feed, carriage return) may stand between any two
  tokens.  In strict mode, the default, a control character inside a string is
  an error.
\<close>

datatype token =
    TLBrace | TRBrace | TLBracket | TRBracket | TColon | TComma
  | TString string | TInt int | TTrue | TFalse | TNull

definition is_ws :: "char \<Rightarrow> bool" where
  "is_ws c = (c = CHR '' '' \<or> c = CHR 0x09 \<or> c = CHR 0x0A \<or> c = CHR 0x0D)"

definition is_digit :: "char \<Rightarrow> bool" where
  "is_digit c = (48 \<le> (of_char c :: nat) \<and> (of_char c :: nat) \<le> 57)"

definition hexval :: "char \<Rightarrow> nat option" where
  "hexval c =
     (let x = (of_char c :: nat)
      in if 48 \<le> x \<and> x \<le> 57 then Some (x - 48)
         else if 97 \<le> x \<and> x \<le> 102 then Some (x - 87)
         else if 65 \<le> x \<and> x \<le> 70 then Some (x - 55)
         else None)"

definition hex4 :: "char \<Rightarrow> char \<Rightarrow> char \<Rightarrow> char \<Rightarrow> nat option" where
  "hex4 a b c d =
     (case (hexval a, hexval b, hexval c, hexval d) of
        (Some p, Some q, Some r, Some s) \<Rightarrow> Some (((p * 16 + q) * 16 + r) * 16 + s)
      | _ \<Rightarrow> None)"

definition unescape :: "char \<Rightarrow> char option" where
  "unescape e =
     (if e = dquote then Some dquote
      else if e = backslash then Some backslash
      else if e = CHR ''/'' then Some CHR ''/''
      else if e = CHR ''b'' then Some (CHR 0x08)
      else if e = CHR ''f'' then Some (CHR 0x0C)
      else if e = CHR ''n'' then Some (CHR 0x0A)
      else if e = CHR ''r'' then Some (CHR 0x0D)
      else if e = CHR ''t'' then Some (CHR 0x09)
      else None)"

definition digits_value :: "string \<Rightarrow> nat" where
  "digits_value ds = foldl (\<lambda>a c. 10 * a + (of_char c - 48)) 0 ds"

text \<open>
  What may follow the integer part of a numeral and make it a float: a
  fraction \<^verbatim>\<open>\.\d+\<close> or an exponent \<^verbatim>\<open>[eE][-+]?\d+\<close>.
\<close>

definition starts_with_digit :: "string \<Rightarrow> bool" where
  "starts_with_digit s = (case s of [] \<Rightarrow> False | d # _ \<Rightarrow> is_digit d)"

definition float_tail :: "string \<Rightarrow> bool" where
  "float_tail s =
     (case s of
        [] \<Rightarrow> False
      | c # cs \<Rightarrow>
          if c = CHR ''.'' then starts_with_digit cs
          else if c = CHR ''e'' \<or> c = CHR ''E'' then
            (case cs of
               [] \<Rightarrow> False
             | d # ds \<Rightarrow>
                 if d = CHR ''+'' \<or> d = CHR ''-'' then starts_with_digit ds
                 else is_digit d)
          else False)"

fun cons_token :: "token \<Rightarrow> py_exception + token list \<Rightarrow> py_exception + token list" where
  "cons_token t (Inl e) = Inl e"
| "cons_token t (Inr ts) = Inr (t # ts)"

text \<open>
  \<open>lex None s\<close> reads \<open>s\<close> between tokens; \<open>lex (Some acc) s\<close> reads it inside
  a string literal of which \<open>acc\<close> (in reverse) has been read.
\<close>

function lex :: "string option \<Rightarrow> string \<Rightarrow> py_exception + token list" where
  "lex None [] = Inr []"
| "lex (Some acc) [] = Inl JSONDecodeError"
| "lex (Some acc) (c # cs) =
     (if c = dquote then cons_token (TString (rev acc)) (lex None cs)
      else if c = backslash then
        (case cs of
           [] \<Rightarrow> Inl JSONDecodeError
         | e # cs1 \<Rightarrow>
             if e = CHR ''u'' then
               (case cs1 of
                  h1 # h2 # h3 # h4 # cs2 \<Rightarrow>
                    (case hex4 h1 h2 h3 h4 of
                       None \<Rightarrow> Inl JSONDecodeError
                     | Some n \<Rightarrow>
                         if n < 128 then lex (Some (char_of n # acc)) cs2
                         else Inl Unmodelled)
                | _ \<Rightarrow> Inl JSONDecodeError)
             else
               (case unescape e of
                  None \<Rightarrow> Inl JSONDecodeError
                | Some ch \<Rightarrow> lex (Some (ch # acc)) cs1))
      else if (of_char c :: nat) < 32 then Inl JSONDecodeError
      else lex (Some (c # acc)) cs)"
| "lex None (c # cs) =
     (if is_ws c then lex None cs
      else if c = CHR ''{'' then cons_token TLBrace (lex None cs)
      else if c = CHR ''}'' then cons_token TRBrace (lex None cs)
      else if c = CHR ''['' then cons_token TLBracket (lex None cs)
      else if c = CHR '']'' then cons_token TRBracket (lex None cs)
      else if c = CHR '':'' then cons_token TColon (lex None cs)
      else if c = CHR '','' then cons_token TComma (lex None cs)
      else if c = dquote then lex (Some []) cs
      else if take 4 (c # cs) = ''null'' then cons_token TNull (lex None (drop 3 cs))
      else if take 4 (c # cs) = ''true'' then cons_token TTrue (lex None (drop 3 cs))
      else if take 5 (c # cs) = ''false'' then cons_token TFalse (lex None (drop 4 cs))
      else if c = CHR ''0'' then
        (if float_tail cs then Inl Unmodelled else cons_token (TInt 0) (lex None cs))
      else if is_digit c then
        (if float_tail (dropWhile is_digit cs) then Inl Unmodelled
         else cons_token (TInt (int (digits_value (c # takeWhile is_digit cs))))
                (lex None (dropWhile is_digit cs)))
      else if c = CHR ''-'' then
        (case cs of
           [] \<Rightarrow> Inl JSONDecodeError
         | d # ds \<Rightarrow>
             if d = CHR ''0'' then
               (if float_tail ds then Inl Unmodelled else cons_token (TInt 0) (lex None ds))
             else if is_digit d then
               (if float_tail (dropWhile is_digit ds) then Inl Unmodelled
                else cons_token (TInt (- int (digits_value (d # takeWhile is_digit ds))))
                       (lex None (dropWhile is_digit ds)))
             else if take 8 cs = ''Infinity'' then Inl Unmodelled
             else Inl JSONDecodeError)
      else if take 3 (c # cs) = ''NaN'' \<or> take 8 (c # cs) = ''Infinity'' then Inl Unmodelled
      else Inl JSONDecodeError)"
  by pat_completeness auto
termination
  by (relation "measure (\<lambda>(m, s). length s)")
     (auto simp: less_Suc_eq_le length_dropWhile_le le_SucI)

declare lex.simps [simp del]

text \<open>
  Python's \<^verbatim>\<open>dict(pairs)\<close>: a repeated key keeps its first place and takes
  its last value.
\<close>

definition py_dict :: "(string \<times> json) list \<Rightarrow> (string \<times> json) list" where
  "py_dict pairs = foldl (\<lambda>d kv. AList.update (fst kv) (snd kv) d) [] pairs"

text \<open>
  The values under construction: an array with its elements so far, an
  object with its members so far, and an object whose next key has been read
  (all in reverse).
\<close>

datatype frame =
    ArrF "json list"
  | ObjF "(string \<times> json) list"
  | KeyF "(string \<times> json) list" string

datatype expect = EValue | EValueOrClose | EKeyOrClose | EKey | EColon | ESep

datatype pstate = PS "frame list" expect | PDone json

fun push_value :: "json \<Rightarrow> frame list \<Rightarrow> py_exception + pstate" where
  "push_value v [] = Inr (PDone v)"
| "push_value v (ArrF es # st) = Inr (PS (ArrF (v # es) # st) ESep)"
| "push_value v (KeyF ps k # st) = Inr (PS (ObjF ((k, v) # ps) # st) ESep)"
| "push_value v (ObjF ps # st) = Inl JSONDecodeError"

fun start_value :: "frame list \<Rightarrow> token \<Rightarrow> py_exception + pstate" where
  "start_value st TLBracket = Inr (PS (ArrF [] # st) EValueOrClose)"
| "start_value st TLBrace = Inr (PS (ObjF [] # st) EKeyOrClose)"
| "start_value st (TString s) = push_value (JStr s) st"
| "start_value st (TInt i) = push_value (JNum i) st"
| "start_value st TTrue = push_value (JBool True) st"
| "start_value st TFalse = push_value (JBool False) st"
| "start_value st TNull = push_value JNull st"
| "start_value st _ = Inl JSONDecodeError"

fun pstep :: "pstate \<Rightarrow> token \<Rightarrow> py_exception + pstate" where
  "pstep (PDone v) t = Inl JSONDecodeError"
| "pstep (PS st EValue) t = start_value st t"
| "pstep (PS (ArrF es # st) EValueOrClose) TRBracket = push_value (JArr (rev es)) st"
| "pstep (PS st EValueOrClose) t = start_value st t"
| "pstep (PS (ObjF ps # st) EKeyOrClose) TRBrace = push_value (JObj (py_dict (rev ps))) st"
| "pstep (PS (ObjF ps # st) EKeyOrClose) (TString k) = Inr (PS (KeyF ps k # st) EColon)"
| "pstep (PS (ObjF ps # st) EKey) (TString k) = Inr (PS (KeyF ps k # st) EColon)"
| "pstep (PS st EColon) TColon = Inr (PS st EValue)"
| "pstep (PS (ArrF es # st) ESep) TComma = Inr (PS (ArrF es # st) EValue)"
| "pstep (PS (ArrF es # st) ESep) TRBracket = push_value (JArr (rev es)) st"
| "pstep (PS (ObjF ps # st) ESep) TComma = Inr (PS (ObjF ps # st) EKey)"
| "pstep (PS (ObjF ps # st) ESep) TRBrace = push_value (JObj (py_dict (rev ps))) st"
| "pstep _ _ = Inl JSONDecodeError"

fun prun :: "pstate \<Rightarrow> token list \<Rightarrow> py_exception + json" where
  "prun (PDone v) [] = Inr v"
| "prun (PS st e) [] = Inl JSONDecodeError"
| "prun s (t # ts) = (case pstep s t of Inl e \<Rightarrow> Inl e | Inr s' \<Rightarrow> prun s' ts)"

definition json_loads :: "string \<Rightarrow> py_exception + json" where
  "json_loads s =
     (case lex None s of
        Inl e \<Rightarrow> Inl e
      | Inr ts \<Rightarrow> prun (PS [] EValue) ts)"

text \<open>The tokens of a serialised value, for the proofs.\<close>

fun tokens :: "json \<Rightarrow> token list" where
  "tokens JNull = [TNull]"
| "tokens (JBool b) = [if b then TTrue else TFalse]"
| "tokens (JNum i) = [TInt i]"
| "tokens (JStr s) = [TString s]"
| "tokens (JArr xs) = TLBracket # intercalate [TComma] (map tokens xs) @ [TRBracket]"
| "tokens (JObj m) =
     TLBrace # intercalate [TComma] (map (\<lambda>kv. TString (fst kv) # TColon # tokens (snd kv)) m)
     @ [TRBrace]"

definition cons_tokens :: "token list \<Rightarrow> py_exception + token list \<Rightarrow> py_exception + token list" where
  "cons_tokens ts r = foldr cons_token ts r"

text \<open>
  A text can follow a numeral when it neither continues its digits nor makes
  it a float.
\<close>

definition follows_numeral :: "string \<Rightarrow> bool" where
  "follows_numeral rest = (\<not> starts_with_digit rest \<and> \<not> float_tail rest)"

text \<open>
  How the token automaton goes on once a value \<open>v\<close> is complete, and what it
  means that it reads the tokens of \<open>v\<close> as \<open>v\<close>, in any context.
\<close>

definition after_value :: "json \<Rightarrow> frame list \<Rightarrow> token list \<Rightarrow> py_exception + json" where
  "after_value v st ts = (case push_value v st of Inl x \<Rightarrow> Inl x | Inr s' \<Rightarrow> prun s' ts)"

definition parses :: "json \<Rightarrow> bool" where
  "parses v = (\<forall>st ts. prun (PS st EValue) (tokens v @ ts) = after_value v st ts)"

definition lexes :: "json \<Rightarrow> bool" where
  "lexes v =
     (\<forall>rest. follows_numeral rest \<longrightarrow>
        lex None (serialize v @ rest) = cons_tokens (tokens v) (lex None rest))"

text \<open>The outcomes of the decoder: a value, or one of its two errors.\<close>

definition decode_error :: "py_exception + 'a \<Rightarrow> bool" where
  "decode_error r = (case r of Inl e \<Rightarrow> e = JSONDecodeError \<or> e = Unmodelled | Inr x \<Rightarrow> True)"

subsection \<open>The validator: \<^verbatim>\<open>validate_compact_token\<close>\<close>

text \<open>
  The interpreter's limits on \<^verbatim>\<open>json.loads\<close>.  Every array and object that the
  decoder enters is a nested call, and beyond the recursion limit the
  interpreter raises \<^verbatim>\<open>RecursionError\<close>: \<open>limit\<close> is the depth of nesting that
  it can decode where the validator calls it.  An integer of more than 4300
  digits is refused with \<^verbatim>\<open>ValueError\<close> by the interpreters that bound the
  conversion of integers and read by the others: it is outside the model.
  (Of a text that is nested too deep and ill-formed further on, the
  interpreter reports the depth and this model the form; the validator's
  answer is \<^verbatim>\<open>False\<close> with the text of an exception in both.)
\<close>

fun nesting :: "json \<Rightarrow> nat" where
  "nesting (JArr xs) = Suc (foldr max (map nesting xs) 0)"
| "nesting (JObj m) = Suc (foldr max (map (\<lambda>kv. nesting (snd kv)) m) 0)"
| "nesting _ = 0"

definition max_str_digits :: nat where
  "max_str_digits = 4300"

fun long_integer :: "json \<Rightarrow> bool" where
  "long_integer (JNum i) = (max_str_digits < length (digits (nat \<bar>i\<bar>)))"
| "long_integer (JArr xs) = list_ex long_integer xs"
| "long_integer (JObj m) = list_ex (\<lambda>kv. long_integer (snd kv)) m"
| "long_integer _ = False"

definition py_json_loads :: "nat \<Rightarrow> string \<Rightarrow> py_exception + json" where
  "py_json_loads limit s =
     (case json_loads s of
        Inl e \<Rightarrow> Inl e
      | Inr v \<Rightarrow>
          if limit < nesting v then Inl RecursionError
          else if long_integer v then Inl Unmodelled
          else Inr v)"

text \<open>The payloads that the interpreter decodes.\<close>

definition within_limits :: "nat \<Rightarrow> json \<Rightarrow> bool" where
  "within_limits limit v = (nesting v \<le> limit \<and> \<not> long_integer v)"

text \<open>\<^verbatim>\<open>payload[key]\<close>: only a dict can be indexed by a string.\<close>

fun py_getitem :: "json \<Rightarrow> string \<Rightarrow> py_exception + json" where
  "py_getitem (JObj m) k = (case map_of m k of None \<Rightarrow> Inl (KeyError k) | Some v \<Rightarrow> Inr v)"
| "py_getitem _ k = Inl TypeError"

text \<open>
  Python's \<^verbatim>\<open>==\<close> on decoded JSON: \<^verbatim>\<open>True\<close> and \<^verbatim>\<open>False\<close> are the integers 1 and
  0, lists are equal when their elements are, in order, and dicts when they
  have the same keys (which are distinct) with equal values; values of
  different kinds are unequal.  \<^verbatim>\<open>!=\<close> is its negation.
\<close>

fun py_eq :: "json \<Rightarrow> json \<Rightarrow> bool" where
  "py_eq (JObj m1) (JObj m2) =
     (set (map fst m1) = set (map fst m2) \<and>
      list_all (\<lambda>kv1. list_all (\<lambda>kv2. fst kv1 \<noteq> fst kv2 \<or> py_eq (snd kv1) (snd kv2)) m2) m1)"
| "py_eq (JArr xs) (JArr ys) = list_all2 py_eq xs ys"
| "py_eq (JBool b) (JNum i) = ((if b then 1 else 0) = i)"
| "py_eq (JNum i) (JBool b) = (i = (if b then 1 else 0))"
| "py_eq a b = (a = b)"

definition py_ne :: "json \<Rightarrow> json \<Rightarrow> bool" where
  "py_ne a b = (\<not> py_eq a b)"

text \<open>
  \<^verbatim>\<open>x < now\<close> for an \<^verbatim>\<open>int\<close> \<open>now\<close>: defined on numbers, of which \<^verbatim>\<open>True\<close> and
  \<^verbatim>\<open>False\<close> are 1 and 0; a \<^verbatim>\<open>TypeError\<close> on \<^verbatim>\<open>None\<close>, strings, lists and dicts.
\<close>

fun py_lt_int :: "json \<Rightarrow> int \<Rightarrow> py_exception + bool" where
  "py_lt_int (JNum i) now = Inr (i < now)"
| "py_lt_int (JBool b) now = Inr ((if b then 1 else 0) < now)"
| "py_lt_int _ now = Inl TypeError"

text \<open>
  The second component of the result: one of the validator's two messages,
  the text of a caught exception (here the exception itself), or the
  payload.
\<close>

datatype info = Message string | Raised py_exception | Payload json

text \<open>
  The body of the \<^verbatim>\<open>try\<close> block.  \<open>decode\<close> stands for \<^verbatim>\<open>base64url.decode\<close>.
  \<open>public_key\<close> stands for the call
  \<^verbatim>\<open>public_key.verify(payload_json.encode('utf-8'), sig)\<close> on the module's one
  verify key: \<open>None\<close> when it returns, and the exception when it raises
  (\<^verbatim>\<open>BadSignatureError\<close> for a signature that does not verify).  \<open>now\<close> is
  \<^verbatim>\<open>int(time.time())\<close>.  The expected audience is what the caller passes,
  \<^verbatim>\<open>data.get('aud')\<close> in the route: any JSON value, \<open>JNull\<close> for \<^verbatim>\<open>None\<close>.
\<close>

definition validate_body ::
  "(string \<Rightarrow> py_exception + string) \<Rightarrow> (string \<Rightarrow> string \<Rightarrow> py_exception option) \<Rightarrow>
   nat \<Rightarrow> string \<Rightarrow> json \<Rightarrow> int \<Rightarrow> py_exception + bool \<times> info" where
  "validate_body decode public_key limit compact_token expected_aud now =
     (case str_split CHR ''.'' compact_token of
        [payload_b64, sig_b64] \<Rightarrow>
          (case decode payload_b64 of
             Inl e \<Rightarrow> Inl e
           | Inr payload_json \<Rightarrow>
          (case decode sig_b64 of
             Inl e \<Rightarrow> Inl e
           | Inr sig \<Rightarrow>
          (case public_key payload_json sig of
             Some e \<Rightarrow> Inl e
           | None \<Rightarrow>
          (case py_json_loads limit payload_json of
             Inl e \<Rightarrow> Inl e
           | Inr payload \<Rightarrow>
          (case py_getitem payload ''aud'' of
             Inl e \<Rightarrow> Inl e
           | Inr aud \<Rightarrow>
          if py_ne aud expected_aud then Inr (False, Message ''audience mismatch'')
          else
          (case py_getitem payload ''exp'' of
             Inl e \<Rightarrow> Inl e
           | Inr exp \<Rightarrow>
          (case py_lt_int exp now of
             Inl e \<Rightarrow> Inl e
           | Inr expired \<Rightarrow>
          if expired then Inr (False, Message ''expired'')
          else Inr (True, Payload payload))))))))
      | _ \<Rightarrow> Inl ValueError)"

text \<open>
  The function: \<^verbatim>\<open>except Exception as e: return False, str(e)\<close>.  What the
  clause does not catch leaves the function (\<open>Inl\<close>).
\<close>

definition validate_compact_token ::
  "(string \<Rightarrow> py_exception + string) \<Rightarrow> (string \<Rightarrow> string \<Rightarrow> py_exception option) \<Rightarrow>
   nat \<Rightarrow> string \<Rightarrow> json \<Rightarrow> int \<Rightarrow> py_exception + bool \<times> info" where
  "validate_compact_token decode public_key limit compact_token expected_aud now =
     (case validate_body decode public_key limit compact_token expected_aud now of
        Inl e \<Rightarrow> if is_Exception e then Inr (False, Raised e) else Inl e
      | Inr r \<Rightarrow> Inr r)"

subsection \<open>The attestor's entry point: \<^verbatim>\<open>express.json()\<close> before the handler\<close>








text \<open>
  The answer to a request: the handler's response, the error page with which
  Express answers an error of the body parser (with the status of the error),
  or nothing that the model knows.
\<close>

datatype answer = Handled response | ErrorPage nat | Beyond




subsection \<open>What the theorems ask of the library calls\<close>

text \<open>
  The repository contains neither the Python module \<^verbatim>\<open>base64url\<close> nor PyNaCl,
  and does not decide how the two calls behave on the attestor's tokens.  The
  theorems on issued tokens ask that the validator's decoder inverts the
  attestor's encoding (\<open>decodes\<close>), and that the validator's call of \<^verbatim>\<open>verify\<close>
  returns on every message with the signature that the attestor's secret key
  makes of it (\<open>key_pair\<close>).  The totality of the validator asks that the two
  calls raise nothing outside the class \<^verbatim>\<open>Exception\<close> (\<open>raises_exceptions\<close>).
\<close>

definition decodes :: "(string \<Rightarrow> py_exception + string) \<Rightarrow> bool" where
  "decodes decode = (\<forall>s. decode (base64url_encode s) = Inr s)"

definition key_pair ::
  "(string \<Rightarrow> string \<Rightarrow> string) \<Rightarrow> string \<Rightarrow> (string \<Rightarrow> string \<Rightarrow> py_exception option) \<Rightarrow> bool" where
  "key_pair detached secretKey public_key = (\<forall>m. public_key m (detached m secretKey) = None)"

definition raises_exceptions ::
  "(string \<Rightarrow> py_exception + string) \<Rightarrow> (string \<Rightarrow> string \<Rightarrow> py_exception option) \<Rightarrow> bool" where
  "raises_exceptions decode public_key =
     ((\<forall>s e. decode s = Inl e \<longrightarrow> is_Exception e) \<and>
      (\<forall>m sig e. public_key m sig = Some e \<longrightarrow> is_Exception e))"

text \<open>
  A stand-in for Ed25519 on which the functions can be run: the signature of
  a message is a keyed checksum, and verification recomputes it.
\<close>

definition demo_detached :: "string \<Rightarrow> string \<Rightarrow> string" where
  "demo_detached m k = [char_of (sum_list (map of_char (k @ m)) :: nat)]"

definition demo_verify :: "string \<Rightarrow> string \<Rightarrow> string \<Rightarrow> py_exception option" where
  "demo_verify k m sig = (if sig = demo_detached m k then None else Some BadSignatureError)"

text \<open>
  The payload a compact token carries: the decoding steps of the validator
  without its checks, with the decoder of RFC 4648.
\<close>

definition token_payload :: "string \<Rightarrow> py_exception + json" where
  "token_payload compact_token =
     (case str_split CHR ''.'' compact_token of
        [payload_b64, sig_b64] \<Rightarrow>
          (case base64url_decode payload_b64 of
             Inl e \<Rightarrow> Inl e
           | Inr payload_json \<Rightarrow> json_loads payload_json)
      | _ \<Rightarrow> Inl ValueError)"

text \<open>
  Modelled from the spec: the trust entry of the spec's data model,
  \<^verbatim>\<open>(attestor_id, key_id, public_key, valid_from, valid_until, revoked)\<close>.  The
  source has no such record; of its fields the validator has the public key,
  from which its verify key is made (\<^verbatim>\<open>nacl.signing.VerifyKey(...)\<close>).
\<close>

record trust_entry =
  te_attestor_id :: string
  te_key_id :: string
  te_public_key :: string
  te_valid_from :: int
  te_valid_until :: int
  te_revoked :: bool

subsection \<open>Sample values\<close>

text \<open>The spec's scenario: a request at time 1000, issued under the key \<^verbatim>\<open>k\<close>.\<close>

definition demo_request :: issue_request where
  "demo_request =
     \<lparr>req_age = Some (JStr ''13_15''), req_aud = Some (JStr ''app.example''),
      req_nonce = Some (JStr ''r4nd1'')\<rparr>"

definition demo_obj :: "(string \<times> json) list" where
  "demo_obj = tokenObj ''tid-1'' 1000 (JStr ''13_15'') (JStr ''app.example'') (JStr ''r4nd1'')"

definition demo_token :: string where
  "demo_token = signToken demo_detached demo_obj ''k''"

definition demo_payload :: json where
  "demo_payload =
     JObj [(''age'', JStr ''13_15''), (''att'', JStr ''attestor.example.org''),
           (''aud'', JStr ''app.example''), (''exp'', JNum 4600), (''flags'', JObj []),
           (''iat'', JNum 1000), (''nonce'', JStr ''r4nd1''), (''tid'', JStr ''tid-1'')]"

definition demo_entry :: trust_entry where
  "demo_entry =
     \<lparr>te_attestor_id = ''attestor.example.org'', te_key_id = ''key-1'', te_public_key = ''k'',
      te_valid_from = 0, te_valid_until = 10000, te_revoked = True\<rparr>"

text \<open>One payload written in two member orders, at the top level and inside \<^verbatim>\<open>flags\<close>.\<close>

definition demo_order_a :: "(string \<times> json) list" where
  "demo_order_a =
     [(''aud'', JStr ''app.example''),
      (''exp'', JNum 4600),
      (''flags'', JObj [(''aud'', JBool True), (''exp'', JNull), (''purpose'', JStr ''safety'')])]"

definition demo_order_b :: "(string \<times> json) list" where
  "demo_order_b =
     [(''flags'', JObj [(''purpose'', JStr ''safety''), (''exp'', JNull), (''aud'', JBool True)]),
      (''exp'', JNum 4600),
      (''aud'', JStr ''app.example'')]"




text \<open>A payload of two members, signed under the key \<^verbatim>\<open>k\<close>.\<close>

definition demo_bare_obj :: "(string \<times> json) list" where
  "demo_bare_obj = [(''aud'', JStr ''app.example''), (''exp'', JNum 4600)]"

definition demo_bare_token :: string where
  "demo_bare_token = signToken demo_detached demo_bare_obj ''k''"

subsection \<open>Predicates of the statements\<close>



text \<open>
  The property list of every token of the attestor (the sorted member names
  of \<open>tokenObj\<close>), and the payload that its serialisation under this list
  denotes: the members in the order of the list, \<^verbatim>\<open>flags\<close> without its member
  \<^verbatim>\<open>purpose\<close>, which the list does not name.
\<close>

definition token_keys :: "string list" where
  "token_keys = [''age'', ''att'', ''aud'', ''exp'', ''flags'', ''iat'', ''nonce'', ''tid'']"

definition emitted_payload :: "string \<Rightarrow> int \<Rightarrow> json \<Rightarrow> json \<Rightarrow> json \<Rightarrow> json" where
  "emitted_payload tid now age aud nonce =
     JObj [(''age'', select_properties token_keys age),
           (''att'', JStr ''attestor.example.org''),
           (''aud'', select_properties token_keys aud),
           (''exp'', JNum (now + ttl)),
           (''flags'', JObj []),
           (''iat'', JNum now),
           (''nonce'', select_properties token_keys nonce),
           (''tid'', JStr tid)]"

text \<open>
  Malformed tokens, in the words of the spec: a token with more or fewer than
  one \<^verbatim>\<open>.\<close>, with a part that is not base64url, with a payload that is not
  JSON, or with a payload that lacks one of the payload fields
  \<^verbatim>\<open>tid, att, age, aud, iat, exp, nonce, flags\<close>.
\<close>

definition base64url_text :: "string \<Rightarrow> bool" where
  "base64url_text s = (list_all (\<lambda>c. b64_index c \<noteq> None) s \<and> length s mod 4 \<noteq> 1)"

definition payload_fields :: "string list" where
  "payload_fields = [''tid'', ''att'', ''age'', ''aud'', ''iat'', ''exp'', ''nonce'', ''flags'']"

fun lacks_field :: "json \<Rightarrow> bool" where
  "lacks_field (JObj m) = list_ex (\<lambda>k. map_of m k = None) payload_fields"
| "lacks_field _ = True"

definition malformed :: "string \<Rightarrow> bool" where
  "malformed compact_token =
     (count_list compact_token CHR ''.'' \<noteq> 1 \<or>
      (let payload_b64 = takeWhile (\<lambda>c. c \<noteq> CHR ''.'') compact_token;
           sig_b64 = drop (Suc (length payload_b64)) compact_token
       in \<not> base64url_text payload_b64 \<or> \<not> base64url_text sig_b64 \<or>
          (case base64url_decode payload_b64 of
             Inl e \<Rightarrow> True
           | Inr payload_json \<Rightarrow>
               (case json_loads payload_json of
                  Inl e \<Rightarrow> e = JSONDecodeError
                | Inr payload \<Rightarrow> lacks_field payload))))"

section \<open>Properties of the library calls and of the tokens\<close>

subsection \<open>base64url: decoding inverts encoding\<close>

lemma b64_index_char: "n < 64 \<Longrightarrow> b64_index (b64_char n) = Some n"
  by (auto simp: b64_index_def b64_char_def Let_def)

lemma b64_char_not_dot: "b64_char n \<noteq> CHR ''.''"
proof
  assume "b64_char n = CHR ''.''"
  then have "(of_char (b64_char n) :: nat) = 46" by simp
  then show False by (auto simp: b64_char_def split: if_splits)
qed

lemma of_char_lt_256: "(of_char c :: nat) < 256"
  by (cases c) (simp)

lemma triples_induct [case_names Nil One Two Three]:
  assumes "P []" "\<And>a. P [a]" "\<And>a b. P [a, b]"
    and "\<And>a b c rest. P rest \<Longrightarrow> P (a # b # c # rest)"
  shows "P (s :: string)"
proof (induction s rule: base64url_encode.induct)
  case (4 a b c rest)
  then show ?case by (intro assms(4)) simp
qed (rule assms)+

lemma base64url_encode_no_dot: "CHR ''.'' \<notin> set (base64url_encode s)"
  by (induction s rule: triples_induct)
     (auto simp: Let_def b64_char_not_dot b64_char_not_dot [symmetric])

lemma b64_sextets:
  fixes x y z :: nat
  assumes "x < 256" "y < 256" "z < 256"
  shows "b64_index (b64_char (x div 4)) = Some (x div 4)"
    and "b64_index (b64_char (x mod 4 * 16)) = Some (x mod 4 * 16)"
    and "b64_index (b64_char (x mod 4 * 16 + y div 16)) = Some (x mod 4 * 16 + y div 16)"
    and "b64_index (b64_char (y mod 16 * 4)) = Some (y mod 16 * 4)"
    and "b64_index (b64_char (y mod 16 * 4 + z div 64)) = Some (y mod 16 * 4 + z div 64)"
    and "b64_index (b64_char (z mod 64)) = Some (z mod 64)"
  using assms by (auto intro!: b64_index_char)

lemma b64_octets:
  fixes x y z :: nat
  assumes "x < 256" "y < 256" "z < 256"
  shows "x div 4 * 4 + x mod 4 * 16 div 16 = x"
    and "x div 4 * 4 + (x mod 4 * 16 + y div 16) div 16 = x"
    and "(x mod 4 * 16 + y div 16) mod 16 * 16 + y mod 16 * 4 div 4 = y"
    and "(x mod 4 * 16 + y div 16) mod 16 * 16 + (y mod 16 * 4 + z div 64) div 4 = y"
    and "(y mod 16 * 4 + z div 64) mod 4 * 64 + z mod 64 = z"
  using assms by auto

lemma base64url_roundtrip: "base64url_decode (base64url_encode s) = Inr s"
proof (induction s rule: triples_induct)
  case Nil
  show ?case by simp
next
  case (One a)
  note b = of_char_lt_256 [of a]
  show ?case
    by (simp only: base64url_encode.simps base64url_decode.simps Let_def
          b64_sextets [OF b b b] b64_octets [OF b b b] prod.case option.case char_of_char)
next
  case (Two a b)
  note a = of_char_lt_256 [of a] and b = of_char_lt_256 [of b]
  show ?case
    by (simp only: base64url_encode.simps base64url_decode.simps Let_def
          b64_sextets [OF a b b] b64_octets [OF a b b] prod.case option.case char_of_char)
next
  case (Three a b c rest)
  note a = of_char_lt_256 [of a] and b = of_char_lt_256 [of b] and c = of_char_lt_256 [of c]
  show ?case
    by (simp only: base64url_encode.simps base64url_decode.simps Let_def append.simps Three
          b64_sextets [OF a b c] b64_octets [OF a b c] prod.case option.case sum.case char_of_char)
qed

subsection \<open>\<^verbatim>\<open>json.loads\<close> reads what \<^verbatim>\<open>JSON.stringify\<close> writes: the tokens\<close>

lemma update_fresh: "k \<notin> fst ` set d \<Longrightarrow> AList.update k v d = d @ [(k, v)]"
  by (induction d) auto

lemma py_dict_aux:
  "distinct (map fst (d @ m)) \<Longrightarrow>
   foldl (\<lambda>d kv. AList.update (fst kv) (snd kv) d) d m = d @ m"
proof (induction m arbitrary: d)
  case Nil
  show ?case by simp
next
  case (Cons kv m)
  have "fst kv \<notin> fst ` set d"
    using Cons.prems by auto
  then have "AList.update (fst kv) (snd kv) d = d @ [kv]"
    by (simp add: update_fresh)
  moreover have "distinct (map fst ((d @ [kv]) @ m))"
    using Cons.prems by simp
  ultimately show ?case
    using Cons.IH [of "d @ [kv]"] by simp
qed

lemma py_dict_distinct: "distinct (map fst m) \<Longrightarrow> py_dict m = m"
  using py_dict_aux [of "[]" m] by (simp add: py_dict_def)

lemma pstep_value_or_close:
  "t \<noteq> TRBracket \<Longrightarrow> pstep (PS st EValueOrClose) t = start_value st t"
  by (cases "(PS st EValueOrClose, t)" rule: pstep.cases) auto

lemma parsesD: "parses v \<Longrightarrow> prun (PS st EValue) (tokens v @ ts) = after_value v st ts"
  by (simp add: parses_def)

lemma after_value_simps:
  "after_value v [] ts = prun (PDone v) ts"
  "after_value v (ArrF es # st) ts = prun (PS (ArrF (v # es) # st) ESep) ts"
  "after_value v (KeyF ps k # st) ts = prun (PS (ObjF ((k, v) # ps) # st) ESep) ts"
  by (simp_all add: after_value_def)

lemma intercalate_Cons:
  "intercalate sep (x # xs) = x @ (if xs = [] then [] else sep @ intercalate sep xs)"
  by (cases xs) simp_all

lemma tokens_first: "\<exists>t ts. tokens v = t # ts \<and> t \<noteq> TRBracket"
  by (cases v) auto

lemma parses_value_or_close:
  assumes "parses v"
  shows "prun (PS st EValueOrClose) (tokens v @ ts) = after_value v st ts"
proof -
  obtain t ts' where t: "tokens v = t # ts'" "t \<noteq> TRBracket"
    using tokens_first by blast
  have "prun (PS st EValueOrClose) (tokens v @ ts) = prun (PS st EValue) (tokens v @ ts)"
    using t by (simp add: pstep_value_or_close)
  then show ?thesis
    using assms by (simp add: parsesD)
qed

lemma parses_elements:
  assumes "\<forall>x \<in> set xs. parses x" "xs \<noteq> []"
  shows "prun (PS (ArrF es # st) EValue) (intercalate [TComma] (map tokens xs) @ TRBracket # ts)
         = after_value (JArr (rev es @ xs)) st ts"
  using assms
proof (induction xs arbitrary: es rule: induct_list012)
  case 1
  then show ?case by simp
next
  case (2 x)
  then have "parses x" by simp
  then show ?case
    by (simp add: parsesD after_value_simps) (simp add: after_value_def)?
next
  case (3 x y ys)
  then have x: "parses x" by simp
  have "prun (PS (ArrF (x # es) # st) EValue)
          (intercalate [TComma] (map tokens (y # ys)) @ TRBracket # ts)
        = after_value (JArr (rev (x # es) @ y # ys)) st ts"
    using 3(2) [of "x # es"] 3(3) by simp
  then show ?case
    using x by (simp add: parsesD after_value_simps) (simp add: after_value_def)?
qed

lemma parses_members:
  assumes "\<forall>kv \<in> set m. parses (snd kv)" "m \<noteq> []" "e = EKey \<or> e = EKeyOrClose"
  shows "prun (PS (ObjF ps # st) e)
           (intercalate [TComma] (map (\<lambda>kv. TString (fst kv) # TColon # tokens (snd kv)) m) @ TRBrace # ts)
         = after_value (JObj (py_dict (rev ps @ m))) st ts"
  using assms
proof (induction m arbitrary: ps e rule: induct_list012)
  case 1
  then show ?case by simp
next
  case (2 kv)
  then have kv: "parses (snd kv)" by simp
  obtain k v where [simp]: "kv = (k, v)" by (cases kv)
  from 2(3) show ?case
    using kv by (auto simp add: parsesD after_value_simps) (simp_all add: after_value_def)?
next
  case (3 kv y ys)
  then have kv: "parses (snd kv)" by simp
  obtain k v where [simp]: "kv = (k, v)" by (cases kv)
  have "prun (PS (ObjF (kv # ps) # st) EKey)
          (intercalate [TComma] (map (\<lambda>kv. TString (fst kv) # TColon # tokens (snd kv)) (y # ys))
           @ TRBrace # ts)
        = after_value (JObj (py_dict (rev (kv # ps) @ y # ys))) st ts"
    using 3(2) [where ps = "kv # ps" and e = EKey] 3(3) by simp
  with 3(5) show ?case
    using kv by (auto simp add: parsesD after_value_simps) (simp_all add: after_value_def)?
qed

lemma parses_wf: "wf_json v \<Longrightarrow> parses v"
proof (induction v)
  case (JArr xs)
  show ?case
  proof (cases "xs = []")
    case True
    then show ?thesis by (simp add: parses_def) (simp add: after_value_def)
  next
    case False
    have all: "\<forall>x \<in> set xs. parses x"
      using JArr by (auto simp: list_all_iff)
    have first: "\<exists>t ts. intercalate [TComma] (map tokens xs) = t # ts \<and> t \<noteq> TRBracket"
      using False tokens_first [of "hd xs"]
      by (cases xs) (auto simp: intercalate_Cons)
    show ?thesis
      unfolding parses_def
    proof (intro allI)
      fix st ts
      from first obtain t ts' where t: "intercalate [TComma] (map tokens xs) = t # ts'" "t \<noteq> TRBracket"
        by blast
      have "prun (PS (ArrF [] # st) EValueOrClose) (intercalate [TComma] (map tokens xs) @ TRBracket # ts)
          = prun (PS (ArrF [] # st) EValue) (intercalate [TComma] (map tokens xs) @ TRBracket # ts)"
        using t by (simp add: pstep_value_or_close)
      then show "prun (PS st EValue) (tokens (JArr xs) @ ts) = after_value (JArr xs) st ts"
        using parses_elements [OF all False, of "[]" st ts] by simp
    qed
  qed
next
  case (JObj m)
  show ?case
  proof (cases "m = []")
    case True
    then show ?thesis by (simp add: parses_def py_dict_def) (simp add: after_value_def)
  next
    case False
    have all: "\<forall>kv \<in> set m. parses (snd kv)"
      using JObj by (auto simp: list_all_iff snds.simps)
    have "py_dict m = m"
      using JObj.prems by (simp add: py_dict_distinct)
    then show ?thesis
      using parses_members [OF all False, where e = EKeyOrClose and ps = "[]"]
      by (simp add: parses_def)
  qed
qed (simp_all add: parses_def after_value_def)

lemma prun_tokens: "wf_json v \<Longrightarrow> prun (PS [] EValue) (tokens v) = Inr v"
  using parsesD [OF parses_wf, of v "[]" "[]"] by (simp add: after_value_simps)

subsection \<open>\<^verbatim>\<open>json.loads\<close> reads what \<^verbatim>\<open>JSON.stringify\<close> writes: the text\<close>

lemma cons_tokens_simps [simp]:
  "cons_tokens [] r = r"
  "cons_tokens (t # ts) r = cons_token t (cons_tokens ts r)"
  "cons_tokens (ts @ us) r = cons_tokens ts (cons_tokens us r)"
  by (simp_all add: cons_tokens_def)

paragraph \<open>Strings\<close>

lemma hexval_hexdigit: "n < 16 \<Longrightarrow> hexval (hexdigit n) = Some n"
  by (auto simp: hexval_def hexdigit_def Let_def)

lemma hex4_control:
  "x < 32 \<Longrightarrow> hex4 CHR ''0'' CHR ''0'' (hexdigit (x div 16)) (hexdigit (x mod 16)) = Some x"
proof -
  assume "x < 32"
  then have "x div 16 < 16" "x mod 16 < 16" by auto
  then have "hexval (hexdigit (x div 16)) = Some (x div 16)"
    "hexval (hexdigit (x mod 16)) = Some (x mod 16)"
    by (simp_all add: hexval_hexdigit)
  moreover have "hexval CHR ''0'' = Some 0"
    by (simp add: hexval_def)
  ultimately show ?thesis
    by (simp add: hex4_def)
qed

lemma lex_Some_quote:
  "lex (Some acc) (dquote # cs) = cons_token (TString (rev acc)) (lex None cs)"
  by (subst lex.simps) simp

lemma lex_Some_plain:
  "c \<noteq> dquote \<Longrightarrow> c \<noteq> backslash \<Longrightarrow> \<not> (of_char c :: nat) < 32 \<Longrightarrow>
   lex (Some acc) (c # cs) = lex (Some (c # acc)) cs"
  by (subst lex.simps) simp

lemma lex_Some_escape:
  "unescape e = Some ch \<Longrightarrow> e \<noteq> CHR ''u'' \<Longrightarrow>
   lex (Some acc) (backslash # e # cs) = lex (Some (ch # acc)) cs"
  by (subst lex.simps) (simp add: dquote_def backslash_def)

lemma lex_Some_u:
  "hex4 h1 h2 h3 h4 = Some n \<Longrightarrow> n < 128 \<Longrightarrow>
   lex (Some acc) (backslash # CHR ''u'' # h1 # h2 # h3 # h4 # cs) = lex (Some (char_of n # acc)) cs"
  by (subst lex.simps) (simp add: dquote_def backslash_def)

lemma unescape_simps:
  "unescape CHR ''b'' = Some (CHR 0x08)"
  "unescape CHR ''t'' = Some (CHR 0x09)"
  "unescape CHR ''n'' = Some (CHR 0x0A)"
  "unescape CHR ''f'' = Some (CHR 0x0C)"
  "unescape CHR ''r'' = Some (CHR 0x0D)"
  "unescape dquote = Some dquote"
  "unescape backslash = Some backslash"
  by (simp_all add: unescape_def dquote_def backslash_def)

lemma lex_quoted_char:
  "lex (Some acc) (QuoteJSONChar c @ rest) = lex (Some (c # acc)) rest"
proof -
  consider (b) "c = CHR 0x08" | (t) "c = CHR 0x09" | (n) "c = CHR 0x0A" | (f) "c = CHR 0x0C"
    | (r) "c = CHR 0x0D" | (q) "c = dquote" | (s) "c = backslash"
    | (u) "c \<notin> {CHR 0x08, CHR 0x09, CHR 0x0A, CHR 0x0C, CHR 0x0D, dquote, backslash}"
          "(of_char c :: nat) < 32"
    | (p) "c \<notin> {CHR 0x08, CHR 0x09, CHR 0x0A, CHR 0x0C, CHR 0x0D, dquote, backslash}"
          "\<not> (of_char c :: nat) < 32"
    by blast
  then show ?thesis
  proof cases
    case b
    then show ?thesis
      by (simp add: QuoteJSONChar_def lex_Some_escape [OF unescape_simps(1)])
  next
    case t
    then show ?thesis
      by (simp add: QuoteJSONChar_def lex_Some_escape [OF unescape_simps(2)])
  next
    case n
    then show ?thesis
      by (simp add: QuoteJSONChar_def lex_Some_escape [OF unescape_simps(3)])
  next
    case f
    then show ?thesis
      by (simp add: QuoteJSONChar_def lex_Some_escape [OF unescape_simps(4)])
  next
    case r
    then show ?thesis
      by (simp add: QuoteJSONChar_def lex_Some_escape [OF unescape_simps(5)])
  next
    case q
    have "QuoteJSONChar dquote = [backslash, dquote]"
      by (simp add: QuoteJSONChar_def dquote_def)
    moreover have "dquote \<noteq> CHR ''u''"
      by (simp add: dquote_def)
    ultimately show ?thesis
      using q by (simp add: lex_Some_escape [OF unescape_simps(6)])
  next
    case s
    have "QuoteJSONChar backslash = [backslash, backslash]"
      by (simp add: QuoteJSONChar_def dquote_def backslash_def)
    moreover have "backslash \<noteq> CHR ''u''"
      by (simp add: backslash_def)
    ultimately show ?thesis
      using s by (simp add: lex_Some_escape [OF unescape_simps(7)])
  next
    case u
    then have "QuoteJSONChar c = [backslash, CHR ''u'', CHR ''0'', CHR ''0'',
                hexdigit (of_char c div 16), hexdigit (of_char c mod 16)]"
      by (simp add: QuoteJSONChar_def)
    moreover have "hex4 CHR ''0'' CHR ''0'' (hexdigit (of_char c div 16)) (hexdigit (of_char c mod 16))
          = Some (of_char c)"
      using u by (simp add: hex4_control)
    moreover have "(of_char c :: nat) < 128"
      using u by simp
    ultimately show ?thesis
      by (simp add: lex_Some_u)
  next
    case p
    then have "QuoteJSONChar c = [c]"
      by (simp add: QuoteJSONChar_def)
    then show ?thesis
      using p by (simp add: lex_Some_plain)
  qed
qed

lemma lex_string_body:
  "lex (Some acc) (concat (map QuoteJSONChar s) @ dquote # rest)
   = cons_token (TString (rev acc @ s)) (lex None rest)"
proof (induction s arbitrary: acc)
  case Nil
  show ?case by (simp add: lex_Some_quote)
next
  case (Cons c s)
  show ?case
    using Cons [of "c # acc"] by (simp add: lex_quoted_char)
qed

lemma lex_None_quote: "lex None (dquote # cs) = lex (Some []) cs"
  by (subst lex.simps) (simp add: is_ws_def dquote_def)

lemma lex_string:
  "lex None (QuoteJSONString s @ rest) = cons_token (TString s) (lex None rest)"
  using lex_string_body [of "[]" s rest]
  by (simp add: QuoteJSONString_def lex_None_quote)


paragraph \<open>Structural characters and literals\<close>

lemma lex_None_structural:
  "lex None (CHR ''{'' # cs) = cons_token TLBrace (lex None cs)"
  "lex None (CHR ''}'' # cs) = cons_token TRBrace (lex None cs)"
  "lex None (CHR ''['' # cs) = cons_token TLBracket (lex None cs)"
  "lex None (CHR '']'' # cs) = cons_token TRBracket (lex None cs)"
  "lex None (CHR '':'' # cs) = cons_token TColon (lex None cs)"
  "lex None (CHR '','' # cs) = cons_token TComma (lex None cs)"
  by (subst lex.simps, simp add: is_ws_def)+

lemma lex_None_literal:
  "lex None (''null'' @ cs) = cons_token TNull (lex None cs)"
  "lex None (''true'' @ cs) = cons_token TTrue (lex None cs)"
  "lex None (''false'' @ cs) = cons_token TFalse (lex None cs)"
  by (simp_all add: lex.simps is_ws_def dquote_def)

paragraph \<open>Numerals\<close>

lemma is_digit_char_of: "k < 10 \<Longrightarrow> is_digit (char_of (48 + k :: nat))"
  by (simp add: is_digit_def)

lemma digit_value_char_of: "k < 10 \<Longrightarrow> (of_char (char_of (48 + k :: nat)) :: nat) - 48 = k"
  by simp

lemma digits_all: "list_all is_digit (digits n)"
  by (induction n rule: digits.induct) (subst digits.simps, simp add: is_digit_char_of)

lemma digits_value_snoc: "digits_value (ds @ [c]) = 10 * digits_value ds + (of_char c - 48)"
  by (simp add: digits_value_def)

lemma digits_value_digits: "digits_value (digits n) = n"
proof (induction n rule: digits.induct)
  case (1 n)
  show ?case
  proof (cases "n < 10")
    case True
    then show ?thesis
      by (subst digits.simps) (simp add: digits_value_def)
  next
    case False
    then have "digits_value (digits (n div 10)) = n div 10"
      using 1 by simp
    moreover have "(of_char (char_of (48 + n mod 10)) :: nat) - 48 = n mod 10"
      by (simp add: digit_value_char_of)
    ultimately show ?thesis
      using False by (subst digits.simps) (simp add: digits_value_snoc)
  qed
qed

lemma digits_first: "\<exists>c cs. digits n = c # cs \<and> is_digit c \<and> (c = CHR ''0'' \<longrightarrow> n = 0)"
proof (induction n rule: digits.induct)
  case (1 n)
  show ?case
  proof (cases "n < 10")
    case True
    have "char_of (48 + n) = CHR ''0'' \<Longrightarrow> n = 0"
    proof -
      assume "char_of (48 + n) = CHR ''0''"
      then have "(of_char (char_of (48 + n)) :: nat) = 48" by simp
      then show "n = 0" using True by simp
    qed
    then show ?thesis
      using True by (subst digits.simps) (auto simp: is_digit_char_of)
  next
    case False
    then obtain c cs where "digits (n div 10) = c # cs" "is_digit c" "c = CHR ''0'' \<longrightarrow> n div 10 = 0"
      using 1 by blast
    then show ?thesis
      using False by (subst digits.simps) auto
  qed
qed

lemma digits_zero: "digits 0 = ''0''"
  by (subst digits.simps) (simp add: char_of_eq_iff)

lemma lex_None_digit:
  assumes "is_digit c"
  shows "lex None (c # cs) =
     (if c = CHR ''0'' then
        (if float_tail cs then Inl Unmodelled else cons_token (TInt 0) (lex None cs))
      else
        (if float_tail (dropWhile is_digit cs) then Inl Unmodelled
         else cons_token (TInt (int (digits_value (c # takeWhile is_digit cs))))
                (lex None (dropWhile is_digit cs))))"
proof -
  have "\<not> is_ws c" "c \<noteq> CHR ''{''" "c \<noteq> CHR ''}''" "c \<noteq> CHR ''[''" "c \<noteq> CHR '']''"
    "c \<noteq> CHR '':''" "c \<noteq> CHR '',''" "c \<noteq> dquote" "c \<noteq> CHR ''n''" "c \<noteq> CHR ''t''"
    "c \<noteq> CHR ''f''"
    using assms by (auto simp: is_digit_def is_ws_def dquote_def)
  then show ?thesis
    using assms by (subst lex.simps) simp
qed

lemma lex_None_minus_digit:
  assumes "is_digit d" "d \<noteq> CHR ''0''"
  shows "lex None (CHR ''-'' # d # ds) =
        (if float_tail (dropWhile is_digit ds) then Inl Unmodelled
         else cons_token (TInt (- int (digits_value (d # takeWhile is_digit ds))))
                (lex None (dropWhile is_digit ds)))"
  using assms by (subst lex.simps) (simp add: is_ws_def dquote_def is_digit_def)

lemma takeWhile_digits:
  assumes "list_all is_digit ds" "\<not> starts_with_digit rest"
  shows "takeWhile is_digit (ds @ rest) = ds" "dropWhile is_digit (ds @ rest) = rest"
proof -
  have r: "takeWhile is_digit rest = []" "dropWhile is_digit rest = rest"
    using assms(2) by (cases rest; simp add: starts_with_digit_def)+
  show "takeWhile is_digit (ds @ rest) = ds" "dropWhile is_digit (ds @ rest) = rest"
    using assms(1) r by (induction ds) auto
qed

lemma lex_digits:
  assumes "follows_numeral rest"
  shows "lex None (digits n @ rest) = cons_token (TInt (int n)) (lex None rest)"
proof -
  obtain c cs where d: "digits n = c # cs" "is_digit c" "c = CHR ''0'' \<longrightarrow> n = 0"
    using digits_first by blast
  have all: "list_all is_digit cs"
    using digits_all [of n] d by simp
  have nd: "\<not> starts_with_digit rest" and nf: "\<not> float_tail rest"
    using assms by (simp_all add: follows_numeral_def)
  show ?thesis
  proof (cases "c = CHR ''0''")
    case True
    then have "digits n = ''0''"
      using d digits_zero by simp
    then show ?thesis
      using True d nf by (simp add: lex_None_digit)
  next
    case False
    have "digits_value (c # cs) = n"
      using digits_value_digits [of n] d by simp
    then show ?thesis
      using False d nf takeWhile_digits [OF all nd]
      by (simp add: lex_None_digit)
  qed
qed

lemma lex_number:
  assumes "follows_numeral rest"
  shows "lex None (NumberToString i @ rest) = cons_token (TInt i) (lex None rest)"
proof (cases "i < 0")
  case False
  then show ?thesis
    using lex_digits [OF assms, of "nat i"] by (simp add: NumberToString_def)
next
  case True
  obtain c cs where d: "digits (nat (- i)) = c # cs" "is_digit c" "c = CHR ''0'' \<longrightarrow> nat (- i) = 0"
    using digits_first by blast
  have c0: "c \<noteq> CHR ''0''"
    using d True by auto
  have all: "list_all is_digit cs"
    using digits_all [of "nat (- i)"] d by simp
  have nd: "\<not> starts_with_digit rest" and nf: "\<not> float_tail rest"
    using assms by (simp_all add: follows_numeral_def)
  have "digits_value (c # cs) = nat (- i)"
    using digits_value_digits [of "nat (- i)"] d by simp
  then show ?thesis
    using True d c0 nf takeWhile_digits [OF all nd]
    by (simp add: NumberToString_def lex_None_minus_digit)
qed

lemma follows_numeral_simps [simp]:
  "follows_numeral []"
  "follows_numeral (CHR '','' # r)"
  "follows_numeral (CHR '']'' # r)"
  "follows_numeral (CHR ''}'' # r)"
  by (simp_all add: follows_numeral_def starts_with_digit_def float_tail_def is_digit_def)

lemma lexesD:
  "lexes v \<Longrightarrow> follows_numeral rest \<Longrightarrow>
   lex None (serialize v @ rest) = cons_tokens (tokens v) (lex None rest)"
  by (simp add: lexes_def)

lemma lexes_elements:
  assumes "\<forall>x \<in> set xs. lexes x"
  shows "lex None (intercalate '','' (map serialize xs) @ CHR '']'' # rest)
         = cons_tokens (intercalate [TComma] (map tokens xs)) (cons_token TRBracket (lex None rest))"
  using assms
proof (induction xs rule: induct_list012)
  case 1
  show ?case by (simp add: lex_None_structural)
next
  case (2 x)
  then show ?case
    by (simp add: lexesD lex_None_structural)
next
  case (3 x y ys)
  then have x: "lexes x" by simp
  have "lex None (intercalate '','' (map serialize (y # ys)) @ CHR '']'' # rest)
        = cons_tokens (intercalate [TComma] (map tokens (y # ys)))
            (cons_token TRBracket (lex None rest))"
    using 3 by simp
  then show ?case
    using x by (simp add: lexesD lex_None_structural)
qed

lemma lexes_members:
  assumes "\<forall>kv \<in> set m. lexes (snd kv)"
  shows "lex None (intercalate '','' (map (\<lambda>kv. QuoteJSONString (fst kv) @ '':'' @ serialize (snd kv)) m)
                   @ CHR ''}'' # rest)
         = cons_tokens (intercalate [TComma] (map (\<lambda>kv. TString (fst kv) # TColon # tokens (snd kv)) m))
             (cons_token TRBrace (lex None rest))"
  using assms
proof (induction m rule: induct_list012)
  case 1
  show ?case by (simp add: lex_None_structural)
next
  case (2 kv)
  then show ?case
    by (simp add: lexesD lex_None_structural lex_string)
next
  case (3 kv y ys)
  then have kv: "lexes (snd kv)" by simp
  have "lex None (intercalate '','' (map (\<lambda>kv. QuoteJSONString (fst kv) @ '':'' @ serialize (snd kv)) (y # ys))
                   @ CHR ''}'' # rest)
         = cons_tokens (intercalate [TComma] (map (\<lambda>kv. TString (fst kv) # TColon # tokens (snd kv)) (y # ys)))
             (cons_token TRBrace (lex None rest))"
    using 3 by simp
  then show ?case
    using kv by (simp add: lexesD lex_None_structural lex_string)
qed

lemma lexes_all: "lexes v"
proof (induction v)
  case JNull
  show ?case using lex_None_literal(1) by (simp add: lexes_def)
next
  case (JBool b)
  show ?case using lex_None_literal(2,3) by (simp add: lexes_def)
next
  case (JNum i)
  show ?case by (simp add: lexes_def lex_number)
next
  case (JStr s)
  show ?case by (simp add: lexes_def lex_string)
next
  case (JArr xs)
  then have all: "\<forall>x \<in> set xs. lexes x" by simp
  show ?case
    unfolding lexes_def
  proof (intro allI impI)
    fix rest
    show "lex None (serialize (JArr xs) @ rest) = cons_tokens (tokens (JArr xs)) (lex None rest)"
      using lexes_elements [OF all, of rest] by (simp add: lex_None_structural)
  qed
next
  case (JObj m)
  then have all: "\<forall>kv \<in> set m. lexes (snd kv)"
    by (auto simp: snds.simps)
  show ?case
    unfolding lexes_def
  proof (intro allI impI)
    fix rest
    show "lex None (serialize (JObj m) @ rest) = cons_tokens (tokens (JObj m)) (lex None rest)"
      using lexes_members [OF all, of rest] by (simp add: lex_None_structural)
  qed
qed

lemma cons_tokens_Inr: "cons_tokens ts (Inr us) = Inr (ts @ us)"
  by (induction ts) simp_all

lemma lex_None_Nil: "lex None [] = Inr []"
  by (simp add: lex.simps)

lemma lex_serialize: "lex None (serialize v) = Inr (tokens v)"
  using lexesD [OF lexes_all, of "[]" v] by (simp add: cons_tokens_Inr lex_None_Nil)

lemma json_loads_serialize: "wf_json v \<Longrightarrow> json_loads (serialize v) = Inr v"
  by (simp add: json_loads_def lex_serialize prun_tokens)

subsection \<open>A token carries what \<^verbatim>\<open>JSON.stringify\<close> selected\<close>

lemma map_filter_cong_set:
  "(\<And>x. x \<in> set xs \<Longrightarrow> f x = g x) \<Longrightarrow> List.map_filter f xs = List.map_filter g xs"
proof (induction xs)
  case Nil
  show ?case by (simp add: List.map_filter_simps)
next
  case (Cons a xs)
  then have "f a = g a" "List.map_filter f xs = List.map_filter g xs"
    by simp_all
  then show ?case by (simp add: List.map_filter_simps split: option.splits)
qed

lemma map_map_filter:
  "map h (List.map_filter f xs) = List.map_filter (\<lambda>x. map_option h (f x)) xs"
  by (induction xs) (auto simp: List.map_filter_simps split: option.splits)

lemma SerializeJSONProperty_select:
  "SerializeJSONProperty K v = serialize (select_properties K v)"
proof (induction K v rule: SerializeJSONProperty.induct)
  case (6 K m)
  have "List.map_filter
           (\<lambda>P. map_option (\<lambda>v. QuoteJSONString P @ '':'' @ SerializeJSONProperty K v) (map_of m P)) K
        = List.map_filter
           (\<lambda>P. map_option (\<lambda>v. QuoteJSONString P @ '':'' @ serialize (select_properties K v)) (map_of m P)) K"
    by (rule map_filter_cong_set) (auto simp: 6 intro!: option.map_cong)
  then show ?case
    by (simp add: map_map_filter option.map_comp comp_def)
next
  case (5 K xs)
  then have eq: "map (SerializeJSONProperty K) xs = map (\<lambda>x. serialize (select_properties K x)) xs"
    by simp
  show ?case
    by (simp only: SerializeJSONProperty.simps select_properties.simps serialize.simps
          map_map comp_def eq)
qed simp_all

lemma map_fst_map_filter:
  "map fst (List.map_filter (\<lambda>P. map_option (\<lambda>v. (P, g v)) (f P)) K) = filter (\<lambda>P. f P \<noteq> None) K"
  by (induction K) (auto simp: List.map_filter_simps split: option.splits)

lemma wf_select_properties: "distinct K \<Longrightarrow> wf_json (select_properties K v)"
proof (induction K v rule: select_properties.induct)
  case (1 K xs)
  then show ?case by (simp add: list_all_iff)
next
  case (2 K m)
  have "list_all (\<lambda>kv. wf_json (snd kv))
          (List.map_filter (\<lambda>P. map_option (\<lambda>v. (P, select_properties K v)) (map_of m P)) K)"
    using 2 by (auto simp: list_all_iff List.map_filter_def)
  then show ?case
    using 2(2) by (simp add: map_fst_map_filter)
qed simp_all

lemma PropertyList_aux:
  "distinct K \<Longrightarrow>
   distinct (fold (\<lambda>P K. if P \<in> set K then K else K @ [P]) r K) \<and>
   set (fold (\<lambda>P K. if P \<in> set K then K else K @ [P]) r K) = set K \<union> set r"
  by (induction r arbitrary: K) auto

lemma distinct_PropertyList: "distinct (PropertyList r)"
  using PropertyList_aux [of "[]" r] by (simp add: PropertyList_def)

lemma PropertyList_distinct_aux:
  "distinct (K @ r) \<Longrightarrow> fold (\<lambda>P K. if P \<in> set K then K else K @ [P]) r K = K @ r"
  by (induction r arbitrary: K) auto

lemma PropertyList_distinct: "distinct r \<Longrightarrow> PropertyList r = r"
  using PropertyList_distinct_aux [of "[]" r] by (simp add: PropertyList_def)

theorem json_loads_JSON_stringify:
  "json_loads (JSON_stringify v replacer) = Inr (select_properties (PropertyList replacer) v)"
  by (simp add: JSON_stringify_def SerializeJSONProperty_select json_loads_serialize
        wf_select_properties distinct_PropertyList)

lemma str_split_no_sep: "sep \<notin> set s \<Longrightarrow> str_split sep s = [s]"
  by (induction s) auto

lemma str_split_append:
  "sep \<notin> set a \<Longrightarrow> str_split sep (a @ sep # b) = a # str_split sep b"
  by (induction a) auto

lemma str_split_length: "length (str_split sep s) = Suc (count_list s sep)"
  by (induction s) (auto split: list.splits)

lemma str_split_two:
  "sep \<notin> set a \<Longrightarrow> sep \<notin> set b \<Longrightarrow> str_split sep (a @ sep # b) = [a, b]"
  by (simp add: str_split_append str_split_no_sep)

lemma token_payload_signToken:
  "token_payload (signToken detached obj sk)
   = Inr (select_properties (PropertyList (sort (map fst obj))) (JObj obj))"
  by (simp add: token_payload_def signToken_def Let_def str_split_two base64url_encode_no_dot
        base64url_roundtrip json_loads_JSON_stringify)

lemma sort_token_keys:
  "sort [''tid'', ''att'', ''age'', ''aud'', ''iat'', ''exp'', ''nonce'', ''flags''] = token_keys"
  unfolding token_keys_def by code_simp

lemma PropertyList_token_keys: "PropertyList token_keys = token_keys"
  by (rule PropertyList_distinct) (simp add: token_keys_def)

lemma tokenObj_property_list:
  "PropertyList (sort (map fst (tokenObj tid now age aud nonce))) = token_keys"
  by (simp add: tokenObj_def sort_token_keys PropertyList_token_keys del: sort_key_simps)

lemma select_tokenObj:
  "select_properties token_keys (JObj (tokenObj tid now age aud nonce))
   = emitted_payload tid now age aud nonce"
proof -
  have "select_properties token_keys (JObj [(''purpose'', JStr ''safety'')]) = JObj []"
    by (simp add: token_keys_def)
  then show ?thesis
    unfolding emitted_payload_def tokenObj_def
    by (simp add: token_keys_def)
qed

lemma token_payload_issued:
  "token_payload (signToken detached (tokenObj tid now age aud nonce) sk)
   = Inr (emitted_payload tid now age aud nonce)"
  by (simp only: token_payload_signToken tokenObj_property_list select_tokenObj)

subsection \<open>What \<^verbatim>\<open>json.loads\<close> raises\<close>

lemma decode_error_simps:
  "decode_error (Inl JSONDecodeError)" "decode_error (Inl Unmodelled)" "decode_error (Inr x)"
  by (simp_all add: decode_error_def)

lemma decode_error_cons_token: "decode_error r \<Longrightarrow> decode_error (cons_token t r)"
  by (cases r) (simp_all add: decode_error_def)

lemma decode_error_if:
  "(b \<Longrightarrow> decode_error x) \<Longrightarrow> (\<not> b \<Longrightarrow> decode_error y) \<Longrightarrow> decode_error (if b then x else y)"
  by simp

lemma decode_error_case_list:
  "(xs = [] \<Longrightarrow> decode_error a) \<Longrightarrow> (\<And>y ys. xs = y # ys \<Longrightarrow> decode_error (f y ys)) \<Longrightarrow>
   decode_error (case xs of [] \<Rightarrow> a | y # ys \<Rightarrow> f y ys)"
  by (cases xs) simp_all

lemma decode_error_case_option:
  "(x = None \<Longrightarrow> decode_error a) \<Longrightarrow> (\<And>y. x = Some y \<Longrightarrow> decode_error (f y)) \<Longrightarrow>
   decode_error (case x of None \<Rightarrow> a | Some y \<Rightarrow> f y)"
  by (cases x) simp_all

lemma decode_error_lex_aux: "length s \<le> n \<Longrightarrow> decode_error (lex m s)"
proof (induction n arbitrary: m s)
  case 0
  then show ?case
    by (cases m) (simp_all add: lex.simps decode_error_simps)
next
  case (Suc n)
  show ?case
  proof (cases s)
    case Nil
    then show ?thesis
      by (cases m) (simp_all add: lex.simps decode_error_simps)
  next
    case (Cons c cs)
    have shorter: "decode_error (lex m' s')" if "length s' \<le> length cs" for m' s'
    proof (rule Suc.IH)
      show "length s' \<le> n"
        using that Suc.prems Cons by simp
    qed
    show ?thesis
    proof (cases m)
      case None
      show ?thesis
        unfolding Cons None
        apply (subst lex.simps)
        apply (intro decode_error_if decode_error_case_list decode_error_case_option
                 decode_error_cons_token decode_error_simps shorter)
        apply (simp_all add: le_SucI [OF length_dropWhile_le] length_dropWhile_le)
        done
    next
      case (Some acc)
      show ?thesis
        unfolding Cons Some
        apply (subst lex.simps)
        apply (intro decode_error_if decode_error_case_list decode_error_case_option
                 decode_error_cons_token decode_error_simps shorter)
        apply simp_all
        done
    qed
  qed
qed

lemma lex_raises: "lex m s = Inl e \<Longrightarrow> e = JSONDecodeError \<or> e = Unmodelled"
  using decode_error_lex_aux [of s "length s" m] by (simp add: decode_error_def)

lemma push_value_raises: "push_value v st = Inl e \<Longrightarrow> e = JSONDecodeError"
  by (cases "(v, st)" rule: push_value.cases) auto

lemma start_value_raises: "start_value st t = Inl e \<Longrightarrow> e = JSONDecodeError"
  by (cases "(st, t)" rule: start_value.cases) (auto dest: push_value_raises)

lemma pstep_raises: "pstep s t = Inl e \<Longrightarrow> e = JSONDecodeError"
  by (cases "(s, t)" rule: pstep.cases) (auto dest: push_value_raises start_value_raises)

lemma prun_raises: "prun s ts = Inl e \<Longrightarrow> e = JSONDecodeError"
  by (induction s ts rule: prun.induct) (auto split: sum.splits dest: pstep_raises)

lemma json_loads_raises: "json_loads s = Inl e \<Longrightarrow> e = JSONDecodeError \<or> e = Unmodelled"
  by (auto simp: json_loads_def split: sum.splits dest: lex_raises prun_raises)

subsection \<open>The validator on the attestor's tokens\<close>

lemma emitted_payload_members:
  "py_getitem (emitted_payload tid now age aud nonce) ''aud'' = Inr (select_properties token_keys aud)"
  "py_getitem (emitted_payload tid now age aud nonce) ''exp'' = Inr (JNum (now + ttl))"
  "py_getitem (emitted_payload tid now age aud nonce) ''iat'' = Inr (JNum now)"
  "py_getitem (emitted_payload tid now age aud nonce) ''att'' = Inr (JStr ''attestor.example.org'')"
  "py_getitem (emitted_payload tid now age aud nonce) ''flags'' = Inr (JObj [])"
  by (simp_all add: emitted_payload_def)

lemma select_properties_JStr_iff: "select_properties K v = JStr s \<longleftrightarrow> v = JStr s"
  by (cases v) auto

lemma py_eq_refl: "wf_json v \<Longrightarrow> py_eq v v"
proof (induction v)
  case (JArr xs)
  then show ?case
    by (simp add: list_all2_same list_all_iff)
next
  case (JObj m)
  have "py_eq (snd kv1) (snd kv2)"
    if "kv1 \<in> set m" "kv2 \<in> set m" "fst kv1 = fst kv2" for kv1 kv2
  proof -
    have "kv1 = kv2"
      using JObj.prems that by (auto simp: distinct_map inj_on_def)
    moreover have "wf_json (snd kv1)"
      using JObj.prems that(1) by (auto simp: list_all_iff)
    moreover have "snd kv1 \<in> Basic_BNFs.snds kv1"
      by (cases kv1) (simp add: snds.simps)
    ultimately show ?thesis
      using JObj.IH [OF that(1)] by simp
  qed
  then show ?case
    by (auto simp: list_all_iff)
qed simp_all

lemma py_eq_JStr: "py_eq (JStr s) e \<longleftrightarrow> e = JStr s"
  by (cases e) auto

lemma py_json_loads_within:
  "json_loads s = Inr v \<Longrightarrow> within_limits limit v \<Longrightarrow> py_json_loads limit s = Inr v"
  by (simp add: py_json_loads_def within_limits_def)

lemma validate_body_signed:
  assumes "key_pair detached sk public_key"
    and "decodes decode"
    and "json_loads (JSON_stringify (JObj obj) (sort (map fst obj))) = Inr payload"
    and "within_limits limit payload"
    and "py_getitem payload ''aud'' = Inr aud"
    and "py_getitem payload ''exp'' = Inr (JNum e)"
  shows "validate_body decode public_key limit (signToken detached obj sk) expected_aud t =
     (if py_ne aud expected_aud then Inr (False, Message ''audience mismatch'')
      else if e < t then Inr (False, Message ''expired'')
      else Inr (True, Payload payload))"
proof -
  define payload_json where "payload_json = JSON_stringify (JObj obj) (sort (map fst obj))"
  define sig where "sig = detached payload_json sk"
  have tok: "signToken detached obj sk = base64url_encode payload_json @ CHR ''.'' # base64url_encode sig"
    by (simp add: signToken_def payload_json_def sig_def Let_def)
  have parts: "str_split CHR ''.'' (signToken detached obj sk)
               = [base64url_encode payload_json, base64url_encode sig]"
    unfolding tok by (rule str_split_two) (rule base64url_encode_no_dot)+
  have dec: "decode (base64url_encode payload_json) = Inr payload_json"
    "decode (base64url_encode sig) = Inr sig"
    using assms(2) by (simp_all add: decodes_def)
  have ok: "public_key payload_json sig = None"
    using assms(1) by (simp add: key_pair_def sig_def)
  have loads: "py_json_loads limit payload_json = Inr payload"
    using assms(3,4) by (simp add: payload_json_def py_json_loads_within)
  show ?thesis
    unfolding validate_body_def parts
    by (simp add: dec ok loads assms(5,6))
qed

lemma validate_signed:
  assumes "key_pair detached sk public_key"
    and "decodes decode"
    and "json_loads (JSON_stringify (JObj obj) (sort (map fst obj))) = Inr payload"
    and "within_limits limit payload"
    and "py_getitem payload ''aud'' = Inr aud"
    and "py_getitem payload ''exp'' = Inr (JNum e)"
  shows "validate_compact_token decode public_key limit (signToken detached obj sk) expected_aud t =
     Inr (if py_ne aud expected_aud then (False, Message ''audience mismatch'')
          else if e < t then (False, Message ''expired'')
          else (True, Payload payload))"
  unfolding validate_compact_token_def validate_body_signed [OF assms]
  by simp

lemma validate_issued:
  assumes "key_pair detached sk public_key"
    and "decodes decode"
    and "within_limits limit (emitted_payload tid now age aud nonce)"
  shows "validate_compact_token decode public_key limit
           (signToken detached (tokenObj tid now age aud nonce) sk) expected_aud t =
     Inr (if py_ne (select_properties token_keys aud) expected_aud
            then (False, Message ''audience mismatch'')
          else if now + ttl < t then (False, Message ''expired'')
          else (True, Payload (emitted_payload tid now age aud nonce)))"
proof -
  let ?obj = "tokenObj tid now age aud nonce"
  let ?p = "emitted_payload tid now age aud nonce"
  have l: "json_loads (JSON_stringify (JObj ?obj) (sort (map fst ?obj))) = Inr ?p"
    by (simp only: json_loads_JSON_stringify tokenObj_property_list select_tokenObj)
  have a: "py_getitem ?p ''aud'' = Inr (select_properties token_keys aud)"
    by (simp add: emitted_payload_members)
  have x: "py_getitem ?p ''exp'' = Inr (JNum (now + ttl))"
    by (simp add: emitted_payload_members)
  show ?thesis
    by (rule validate_signed [OF assms(1,2) l assms(3) a x])
qed

lemma wf_emitted_aud: "wf_json (select_properties token_keys aud)"
  by (rule wf_select_properties) (simp add: token_keys_def)

lemma issue_token_201:
  assumes "status (issue_token detached sk tid now req) = 201"
  shows "\<exists>age aud nonce.
           req_age req = Some age \<and> req_aud req = Some aud \<and> req_nonce req = Some nonce \<and>
           issue_token detached sk tid now req
           = Response 201 (JObj [(''token'', JStr (signToken detached (tokenObj tid now age aud nonce) sk)),
                                 (''expires_at'', JNum (now + ttl))])"
  using assms
  by (auto simp: issue_token_def Let_def split: option.splits if_splits)

lemma issued_token:
  assumes "issue_token detached sk tid now req
           = Response 201 (JObj [(''token'', JStr compact), (''expires_at'', JNum e)])"
  shows "\<exists>age aud nonce.
           req_age req = Some age \<and> req_aud req = Some aud \<and> req_nonce req = Some nonce \<and>
           compact = signToken detached (tokenObj tid now age aud nonce) sk \<and> e = now + ttl"
proof -
  have "status (issue_token detached sk tid now req) = 201"
    using assms by simp
  from issue_token_201 [OF this] show ?thesis
    using assms by auto
qed

text \<open>
  The validator on an issued token, in terms of the answer alone: the token
  carries a payload with an audience \<open>a\<close>, and when the payload is within
  the interpreter's limits the result is decided by \<open>a\<close> and the clock.
\<close>

lemma validate_answer:
  assumes "key_pair detached sk public_key"
    and "decodes decode"
    and "issue_token detached sk tid now req
         = Response 201 (JObj [(''token'', JStr compact), (''expires_at'', JNum e)])"
  shows "\<exists>payload a aud.
           token_payload compact = Inr payload \<and> py_getitem payload ''aud'' = Inr a \<and>
           req_aud req = Some aud \<and> a = select_properties token_keys aud \<and> py_eq a a \<and>
           (within_limits limit payload \<longrightarrow>
              (\<forall>expected_aud t.
                 validate_compact_token decode public_key limit compact expected_aud t =
                   Inr (if py_ne a expected_aud then (False, Message ''audience mismatch'')
                        else if e < t then (False, Message ''expired'')
                        else (True, Payload payload))))"
proof -
  from issued_token [OF assms(3)] obtain age aud nonce where
    r: "req_aud req = Some aud"
    and c: "compact = signToken detached (tokenObj tid now age aud nonce) sk"
    and e: "e = now + ttl"
    by auto
  let ?p = "emitted_payload tid now age aud nonce"
  let ?a = "select_properties token_keys aud"
  have "token_payload compact = Inr ?p"
    unfolding c by (rule token_payload_issued)
  moreover have "py_getitem ?p ''aud'' = Inr ?a"
    by (simp add: emitted_payload_members)
  moreover have "py_eq ?a ?a"
    by (rule py_eq_refl [OF wf_emitted_aud])
  moreover have "within_limits limit ?p \<longrightarrow>
      (\<forall>expected_aud t.
         validate_compact_token decode public_key limit compact expected_aud t =
           Inr (if py_ne ?a expected_aud then (False, Message ''audience mismatch'')
                else if e < t then (False, Message ''expired'')
                else (True, Payload ?p)))"
    unfolding c e by (simp add: validate_issued [OF assms(1,2)])
  ultimately show ?thesis
    using r by blast
qed

subsection \<open>The sample tokens\<close>

lemma demo_key_pair: "key_pair demo_detached ''k'' (demo_verify ''k'')"
  by (simp add: key_pair_def demo_verify_def)

lemma demo_decodes: "decodes base64url_decode"
  by (simp add: decodes_def base64url_roundtrip)

lemma demo_issue:
  "issue_token demo_detached ''k'' ''tid-1'' 1000 demo_request
   = Response 201 (JObj [(''token'', JStr demo_token), (''expires_at'', JNum 4600)])"
  by (simp add: issue_token_def demo_request_def validAgeBuckets_def Let_def demo_token_def
        demo_obj_def ttl_def)


lemma demo_emitted:
  "emitted_payload ''tid-1'' 1000 (JStr ''13_15'') (JStr ''app.example'') (JStr ''r4nd1'') = demo_payload"
  by (simp add: emitted_payload_def demo_payload_def ttl_def)

lemma demo_within: "within_limits 1000 demo_payload"
  by (simp add: within_limits_def demo_payload_def max_str_digits_def)

lemma demo_validate:
  "validate_compact_token base64url_decode (demo_verify ''k'') 1000 demo_token expected_aud t =
     Inr (if expected_aud \<noteq> JStr ''app.example'' then (False, Message ''audience mismatch'')
          else if 4600 < t then (False, Message ''expired'')
          else (True, Payload demo_payload))"
proof -
  have w: "within_limits 1000
             (emitted_payload ''tid-1'' 1000 (JStr ''13_15'') (JStr ''app.example'') (JStr ''r4nd1''))"
    by (simp only: demo_emitted demo_within)
  show ?thesis
    using validate_issued [OF demo_key_pair demo_decodes w, of expected_aud t]
    by (simp only: demo_token_def demo_obj_def demo_emitted)
       (auto simp: ttl_def py_ne_def py_eq_JStr)
qed

text \<open>The text that is signed in the scenario, and the token.\<close>

lemma demo_payload_text:
  "JSON_stringify (JObj demo_obj) (sort (map fst demo_obj))
   = ''{\"age\":\"13_15\",\"att\":\"attestor.example.org\",\"aud\":\"app.example\",\"exp\":4600,\"flags\":{},\"iat\":1000,\"nonce\":\"r4nd1\",\"tid\":\"tid-1\"}''"
  unfolding JSON_stringify_def demo_obj_def tokenObj_property_list
  by (simp add: tokenObj_def token_keys_def ttl_def NumberToString_def char_of_eq_iff
        QuoteJSONString_def QuoteJSONChar_def dquote_def backslash_def)

lemma demo_token_text:
  "demo_token
   = ''eyJhZ2UiOiIxM18xNSIsImF0dCI6ImF0dGVzdG9yLmV4YW1wbGUub3JnIiwiYXVkIjoiYXBwLmV4YW1wbGUiLCJleHAiOjQ2MDAsImZsYWdzIjp7fSwiaWF0IjoxMDAwLCJub25jZSI6InI0bmQxIiwidGlkIjoidGlkLTEifQ.zA''"
  unfolding demo_token_def signToken_def demo_payload_text Let_def demo_detached_def
  by (simp add: b64_char_def char_of_eq_iff)

lemma demo_token_payload: "token_payload demo_token = Inr demo_payload"
  unfolding demo_token_def demo_obj_def
  by (simp only: token_payload_issued demo_emitted)

lemma demo_payload_aud: "py_getitem demo_payload ''aud'' = Inr (JStr ''app.example'')"
  by (simp add: demo_payload_def)






subsection \<open>The validator on arbitrary tokens\<close>

lemma py_lt_int_value:
  "py_lt_int x n = Inr b \<Longrightarrow> \<exists>i. \<forall>n'. py_lt_int x n' = Inr (i < n')"
  by (cases x) auto

lemma validate_messages:
  assumes "validate_compact_token decode public_key limit compact_token expected_aud t
           = Inr (ok, Message m)"
  shows "m = ''audience mismatch'' \<or> m = ''expired''"
proof -
  from assms have "validate_body decode public_key limit compact_token expected_aud t
                   = Inr (ok, Message m)"
    by (auto simp: validate_compact_token_def split: sum.splits if_splits)
  then show ?thesis
    by (auto simp: validate_body_def split: sum.splits list.splits if_splits option.splits)
qed

lemma str_split_not_Nil: "str_split sep s \<noteq> []"
  by (induction s) (auto split: list.splits)

lemma str_split_one: "str_split sep s = [b] \<Longrightarrow> s = b \<and> sep \<notin> set b"
proof (induction s arbitrary: b)
  case Nil
  then show ?case by simp
next
  case (Cons c cs)
  then show ?case
    by (auto simp: str_split_not_Nil split: if_splits list.splits)
qed

lemma str_split_twoD:
  "str_split sep s = [a, b] \<Longrightarrow> s = a @ sep # b \<and> sep \<notin> set a \<and> sep \<notin> set b"
proof (induction s arbitrary: a)
  case Nil
  then show ?case by simp
next
  case (Cons c cs)
  show ?case
  proof (cases "c = sep")
    case True
    then have "a = []" "str_split sep cs = [b]"
      using Cons.prems by simp_all
    then show ?thesis
      using True str_split_one [of sep cs b] by simp
  next
    case False
    then obtain p where "a = c # p" "str_split sep cs = [p, b]"
      using Cons.prems by (auto split: list.splits)
    then show ?thesis
      using False Cons.IH [of p] by simp
  qed
qed

lemma base64url_decode_raises: "base64url_decode s = Inl e \<Longrightarrow> e = Base64Error"
  by (induction s arbitrary: e rule: base64url_decode.induct)
     (auto split: option.splits sum.splits)

lemma demo_raises_exceptions: "raises_exceptions base64url_decode (demo_verify k)"
  by (auto simp: raises_exceptions_def demo_verify_def dest: base64url_decode_raises split: if_splits)

lemma py_json_loads_raises:
  "py_json_loads limit s = Inl e \<Longrightarrow> e = JSONDecodeError \<or> e = RecursionError \<or> e = Unmodelled"
  by (auto simp: py_json_loads_def split: sum.splits if_splits dest: json_loads_raises)

lemma py_json_loads_Inr:
  "py_json_loads limit s = Inr v \<longleftrightarrow> json_loads s = Inr v \<and> within_limits limit v"
  by (auto simp: py_json_loads_def within_limits_def split: sum.splits)

lemma py_getitem_raises: "py_getitem v k = Inl e \<Longrightarrow> is_Exception e"
  by (cases v) (auto split: option.splits)

lemma py_lt_int_raises: "py_lt_int x n = Inl e \<Longrightarrow> e = TypeError"
  by (cases x) auto

lemma validate_body_raises:
  assumes "raises_exceptions decode public_key"
    and "validate_body decode public_key limit compact_token expected_aud now = Inl e"
  shows "is_Exception e \<or>
         (e = Unmodelled \<and>
          (\<exists>payload_b64 sig_b64 payload_json.
             compact_token = payload_b64 @ CHR ''.'' # sig_b64 \<and>
             decode payload_b64 = Inr payload_json \<and>
             py_json_loads limit payload_json = Inl Unmodelled))"
proof (cases "\<exists>p s. str_split CHR ''.'' compact_token = [p, s]")
  case False
  then have "validate_body decode public_key limit compact_token expected_aud now = Inl ValueError"
    by (auto simp: validate_body_def split: list.splits)
  then show ?thesis
    using assms(2) by simp
next
  case True
  then obtain p s where ps: "str_split CHR ''.'' compact_token = [p, s]"
    by blast
  then have tok: "compact_token = p @ CHR ''.'' # s"
    by (simp add: str_split_twoD)
  show ?thesis
  proof (cases "decode p")
    case (Inl x)
    then show ?thesis
      using assms by (auto simp: validate_body_def ps raises_exceptions_def)
  next
    case p: (Inr payload_json)
    show ?thesis
    proof (cases "decode s")
      case (Inl x)
      then show ?thesis
        using assms p by (auto simp: validate_body_def ps raises_exceptions_def)
    next
      case g: (Inr sig)
      show ?thesis
      proof (cases "public_key payload_json sig")
        case (Some x)
        then show ?thesis
          using assms by (auto simp: validate_body_def ps p g raises_exceptions_def)
      next
        case v: None
        show ?thesis
        proof (cases "py_json_loads limit payload_json")
          case (Inl x)
          then have "e = x"
            using assms(2) by (simp add: validate_body_def ps p g v)
          then show ?thesis
            using py_json_loads_raises [OF Inl] Inl tok p by auto
        next
          case (Inr payload)
          then show ?thesis
            using assms(2)
            by (auto simp: validate_body_def ps p g v split: sum.splits if_splits
                  dest: py_getitem_raises py_lt_int_raises)
        qed
      qed
    qed
  qed
qed

text \<open>A token that \<open>signToken\<close> makes of a payload without one of the payload fields.\<close>

lemma malformed_signToken:
  assumes "json_loads (JSON_stringify (JObj obj) (sort (map fst obj))) = Inr payload"
    and "lacks_field payload"
  shows "malformed (signToken detached obj sk)"
proof -
  define payload_json where "payload_json = JSON_stringify (JObj obj) (sort (map fst obj))"
  define sig where "sig = detached payload_json sk"
  have tok: "signToken detached obj sk = base64url_encode payload_json @ CHR ''.'' # base64url_encode sig"
    by (simp add: signToken_def payload_json_def sig_def Let_def)
  have "takeWhile (\<lambda>c. c \<noteq> CHR ''.'') (base64url_encode payload_json @ CHR ''.'' # base64url_encode sig)
        = base64url_encode payload_json"
    using base64url_encode_no_dot [of payload_json]
    by (auto simp: takeWhile_tail)
  then show ?thesis
    unfolding malformed_def tok
    using assms by (simp add: Let_def base64url_roundtrip payload_json_def)
qed

lemma demo_bare_loads:
  "json_loads (JSON_stringify (JObj demo_bare_obj) (sort (map fst demo_bare_obj)))
   = Inr (JObj demo_bare_obj)"
proof -
  have "sort (map fst demo_bare_obj) = [''aud'', ''exp'']"
    unfolding demo_bare_obj_def by code_simp
  then show ?thesis
    by (simp add: json_loads_JSON_stringify PropertyList_def demo_bare_obj_def)
qed

lemma demo_bare_validate:
  "validate_compact_token base64url_decode (demo_verify ''k'') 1000 demo_bare_token
     (JStr ''app.example'') t =
   Inr (if 4600 < t then (False, Message ''expired'') else (True, Payload (JObj demo_bare_obj)))"
proof -
  have w: "within_limits 1000 (JObj demo_bare_obj)"
    by (simp add: within_limits_def demo_bare_obj_def max_str_digits_def)
  have a: "py_getitem (JObj demo_bare_obj) ''aud'' = Inr (JStr ''app.example'')"
    by (simp add: demo_bare_obj_def)
  have x: "py_getitem (JObj demo_bare_obj) ''exp'' = Inr (JNum 4600)"
    by (simp add: demo_bare_obj_def)
  show ?thesis
    unfolding demo_bare_token_def
    by (simp add: validate_signed [OF demo_key_pair demo_decodes demo_bare_loads w a x] py_ne_def)
qed

lemma demo_bare_token_text:
  "demo_bare_token = ''eyJhdWQiOiJhcHAuZXhhbXBsZSIsImV4cCI6NDYwMH0.ew''"
proof -
  have "sort (map fst demo_bare_obj) = [''aud'', ''exp'']"
    unfolding demo_bare_obj_def by code_simp
  then have "JSON_stringify (JObj demo_bare_obj) (sort (map fst demo_bare_obj))
             = ''{\"aud\":\"app.example\",\"exp\":4600}''"
    by (simp add: JSON_stringify_def PropertyList_def demo_bare_obj_def NumberToString_def
          char_of_eq_iff QuoteJSONString_def QuoteJSONChar_def dquote_def backslash_def)
  then show ?thesis
    unfolding demo_bare_token_def signToken_def Let_def demo_detached_def
    by (simp add: b64_char_def char_of_eq_iff)
qed

subsection \<open>The entry point on the body of three strings\<close>


lemma quote_plain [simp]: "QuoteJSONChar CHR ''a'' = ''a''" "QuoteJSONChar CHR ''n'' = ''n''"
  by (simp_all add: QuoteJSONChar_def dquote_def backslash_def)







section \<open>The claims\<close>

subsection \<open>C1: verifying a token twice\<close>

text \<open>
  Claim C1, as the code has it.  The validator keeps no record of the tokens it
  has accepted: its result is a function of the token, the expected audience
  and the clock.  When a token has been accepted at the time \<open>n1\<close>, its
  payload has an \<^verbatim>\<open>exp\<close> of an integer value \<open>x\<close> with \<open>n1 \<le> x\<close>, and a second
  verification of the identical token against the same audience, at any time
  \<open>n2\<close>, is accepted again with the same payload when \<open>n2 \<le> x\<close> and is refused
  as expired when \<open>x < n2\<close>.  It is never refused as a replay.
\<close>

theorem second_verification:
  assumes "validate_compact_token decode public_key limit compact_token expected_aud n1
           = Inr (True, info)"
  shows "\<exists>payload exp x.
           info = Payload payload \<and> py_getitem payload ''exp'' = Inr exp \<and>
           (\<forall>n. py_lt_int exp n = Inr (x < n)) \<and> n1 \<le> x \<and>
           (\<forall>n2. validate_compact_token decode public_key limit compact_token expected_aud n2 =
                    Inr (if x < n2 then (False, Message ''expired'') else (True, Payload payload)))"
proof -
  from assms have "validate_body decode public_key limit compact_token expected_aud n1
                   = Inr (True, info)"
    by (auto simp: validate_compact_token_def split: sum.splits if_splits)
  then obtain payload_b64 sig_b64 payload_json sig payload aud exp where
    s: "str_split CHR ''.'' compact_token = [payload_b64, sig_b64]"
    and p: "decode payload_b64 = Inr payload_json"
    and g: "decode sig_b64 = Inr sig"
    and v: "public_key payload_json sig = None"
    and l: "py_json_loads limit payload_json = Inr payload"
    and a: "py_getitem payload ''aud'' = Inr aud" "\<not> py_ne aud expected_aud"
    and e: "py_getitem payload ''exp'' = Inr exp"
    and x: "py_lt_int exp n1 = Inr False"
    and i: "info = Payload payload"
    by (auto simp: validate_body_def split: sum.splits list.splits if_splits option.splits)
  from py_lt_int_value [OF x] obtain y where y: "\<And>n. py_lt_int exp n = Inr (y < n)"
    by blast
  have "n1 \<le> y"
    using x y [of n1] by simp
  moreover have "validate_compact_token decode public_key limit compact_token expected_aud n2 =
      Inr (if y < n2 then (False, Message ''expired'') else (True, Payload payload))" for n2
    by (simp add: validate_compact_token_def validate_body_def s p g v l a e y)
  ultimately show ?thesis
    using i e y by blast
qed

theorem second_verification_witness:
  "validate_compact_token base64url_decode (demo_verify ''k'') 1000 demo_token
     (JStr ''app.example'') 2000 = Inr (True, Payload demo_payload) \<and>
   (\<exists>x. 2000 \<le> x \<and>
      (\<forall>n2. validate_compact_token base64url_decode (demo_verify ''k'') 1000 demo_token
               (JStr ''app.example'') n2 =
             Inr (if x < n2 then (False, Message ''expired'') else (True, Payload demo_payload)))) \<and>
   validate_compact_token base64url_decode (demo_verify ''k'') 1000 demo_token
     (JStr ''app.example'') 4600 = Inr (True, Payload demo_payload) \<and>
   validate_compact_token base64url_decode (demo_verify ''k'') 1000 demo_token
     (JStr ''app.example'') 4601 = Inr (False, Message ''expired'')"
proof -
  have first: "validate_compact_token base64url_decode (demo_verify ''k'') 1000 demo_token
     (JStr ''app.example'') 2000 = Inr (True, Payload demo_payload)"
    by (simp add: demo_validate)
  have later: "validate_compact_token base64url_decode (demo_verify ''k'') 1000 demo_token
     (JStr ''app.example'') 4600 = Inr (True, Payload demo_payload)"
    "validate_compact_token base64url_decode (demo_verify ''k'') 1000 demo_token
     (JStr ''app.example'') 4601 = Inr (False, Message ''expired'')"
    by (simp_all add: demo_validate)
  have "\<exists>x. 2000 \<le> x \<and>
      (\<forall>n2. validate_compact_token base64url_decode (demo_verify ''k'') 1000 demo_token
               (JStr ''app.example'') n2 =
             Inr (if x < n2 then (False, Message ''expired'') else (True, Payload demo_payload)))"
    using second_verification [OF first] by auto
  with first later show ?thesis
    by blast
qed

text \<open>
  Claim C1 as stated fails.  In the spec's scenario the token issued at time
  1000 for \<^verbatim>\<open>app.example\<close> is verified twice at time 2000, and the second call
  succeeds like the first.
\<close>

theorem replayed_token_accepted_counterexample:
  "map (\<lambda>now. validate_compact_token base64url_decode (demo_verify ''k'') 1000 demo_token
                 (JStr ''app.example'') now)
     [2000, 2000]
   = [Inr (True, Payload demo_payload), Inr (True, Payload demo_payload)]"
  by (simp add: demo_validate)

subsection \<open>C2: the expiry boundary\<close>

text \<open>
  Claim C2, as the code has it.  Every token that the handler issues carries
  a payload with an audience \<open>a\<close>, which is the requested audience when that
  is a string.  When the payload is within the limits of the validator's
  interpreter, the token verified against \<open>a\<close> is accepted, with the payload
  it carries, at every clock reading up to and including its \<^verbatim>\<open>expires_at\<close>
  (so at \<^verbatim>\<open>expires_at - 1\<close> and at \<^verbatim>\<open>expires_at\<close>), and is refused as expired at
  every later one: the validator's test is \<^verbatim>\<open>payload['exp'] < now\<close>.
\<close>

theorem expiry_boundary:
  assumes "key_pair detached sk public_key"
    and "decodes decode"
    and "issue_token detached sk tid now req
         = Response 201 (JObj [(''token'', JStr compact), (''expires_at'', JNum e)])"
  shows "\<exists>payload a.
           token_payload compact = Inr payload \<and> py_getitem payload ''aud'' = Inr a \<and>
           (\<forall>s. req_aud req = Some (JStr s) \<longrightarrow> a = JStr s) \<and>
           (within_limits limit payload \<longrightarrow>
              (\<forall>t. validate_compact_token decode public_key limit compact a t =
                     Inr (if e < t then (False, Message ''expired'') else (True, Payload payload))))"
proof -
  from validate_answer [OF assms, of limit] obtain payload a aud where
    p: "token_payload compact = Inr payload" "py_getitem payload ''aud'' = Inr a"
    and r: "req_aud req = Some aud" "a = select_properties token_keys aud" "py_eq a a"
    and v: "within_limits limit payload \<longrightarrow>
              (\<forall>expected_aud t.
                 validate_compact_token decode public_key limit compact expected_aud t =
                   Inr (if py_ne a expected_aud then (False, Message ''audience mismatch'')
                        else if e < t then (False, Message ''expired'')
                        else (True, Payload payload)))"
    by blast
  have "\<forall>s. req_aud req = Some (JStr s) \<longrightarrow> a = JStr s"
    using r(1,2) by auto
  moreover have "within_limits limit payload \<longrightarrow>
              (\<forall>t. validate_compact_token decode public_key limit compact a t =
                     Inr (if e < t then (False, Message ''expired'') else (True, Payload payload)))"
    using v r(3) by (simp add: py_ne_def)
  ultimately show ?thesis
    using p by blast
qed

theorem expiry_boundary_witness:
  "key_pair demo_detached ''k'' (demo_verify ''k'') \<and>
   decodes base64url_decode \<and>
   issue_token demo_detached ''k'' ''tid-1'' 1000 demo_request
     = Response 201 (JObj [(''token'', JStr demo_token), (''expires_at'', JNum 4600)]) \<and>
   token_payload demo_token = Inr demo_payload \<and>
   py_getitem demo_payload ''aud'' = Inr (JStr ''app.example'') \<and>
   within_limits 1000 demo_payload \<and>
   validate_compact_token base64url_decode (demo_verify ''k'') 1000 demo_token
     (JStr ''app.example'') 4599 = Inr (True, Payload demo_payload) \<and>
   validate_compact_token base64url_decode (demo_verify ''k'') 1000 demo_token
     (JStr ''app.example'') 4600 = Inr (True, Payload demo_payload) \<and>
   validate_compact_token base64url_decode (demo_verify ''k'') 1000 demo_token
     (JStr ''app.example'') 4601 = Inr (False, Message ''expired'')"
  using expiry_boundary [OF demo_key_pair demo_decodes demo_issue, of 1000]
    demo_key_pair demo_decodes demo_issue demo_within demo_payload_aud
  by (simp add: demo_token_payload)

text \<open>
  Claim C2 as stated fails at \<^verbatim>\<open>now = expires_at\<close>: the token of the scenario
  expires at 4600 and is accepted at 4600.
\<close>

theorem accepted_at_expiry_counterexample:
  "issue_token demo_detached ''k'' ''tid-1'' 1000 demo_request
     = Response 201 (JObj [(''token'', JStr demo_token), (''expires_at'', JNum 4600)]) \<and>
   validate_compact_token base64url_decode (demo_verify ''k'') 1000 demo_token
     (JStr ''app.example'') 4600 = Inr (True, Payload demo_payload)"
  by (simp add: demo_issue demo_validate)

subsection \<open>C3: decoding what was encoded\<close>

text \<open>
  Claim C3 fails on the attestor's own payload.  The property list given to
  \<^verbatim>\<open>JSON.stringify\<close> holds the top-level member names only and is in force
  for the nested object too, so \<^verbatim>\<open>flags\<close> is written as \<^verbatim>\<open>{}\<close>: decoding the
  encoding of the scenario's payload yields a payload whose \<^verbatim>\<open>flags\<close> is
  empty, which is not the payload that was encoded.
\<close>

theorem roundtrip_loses_flags:
  "JSON_stringify (JObj demo_obj) (sort (map fst demo_obj))
     = ''{\"age\":\"13_15\",\"att\":\"attestor.example.org\",\"aud\":\"app.example\",\"exp\":4600,\"flags\":{},\"iat\":1000,\"nonce\":\"r4nd1\",\"tid\":\"tid-1\"}'' \<and>
   json_loads (JSON_stringify (JObj demo_obj) (sort (map fst demo_obj))) = Inr demo_payload \<and>
   map_of demo_obj ''flags'' = Some (JObj [(''purpose'', JStr ''safety'')]) \<and>
   py_getitem demo_payload ''flags'' = Inr (JObj []) \<and>
   \<not> same_payload demo_payload (JObj demo_obj)"
proof -
  have "json_loads (JSON_stringify (JObj demo_obj) (sort (map fst demo_obj))) = Inr demo_payload"
    unfolding demo_obj_def
    by (simp only: json_loads_JSON_stringify tokenObj_property_list select_tokenObj demo_emitted)
  moreover have "\<not> same_payload demo_payload (JObj demo_obj)"
    by (simp add: demo_payload_def demo_obj_def tokenObj_def)
  moreover have "map_of demo_obj ''flags'' = Some (JObj [(''purpose'', JStr ''safety'')])"
    by (simp add: demo_obj_def tokenObj_def)
  moreover have "py_getitem demo_payload ''flags'' = Inr (JObj [])"
    by (simp add: demo_payload_def)
  ultimately show ?thesis
    using demo_payload_text by simp
qed

subsection \<open>C4: the order of the members\<close>

lemma same_payload_members:
  assumes "same_payload (JObj m1) (JObj m2)" "(k, v1) \<in> set m1" "(k, v2) \<in> set m2"
  shows "same_payload v1 v2"
proof -
  have "\<forall>kv1 \<in> set m1. \<forall>kv2 \<in> set m2. fst kv1 \<noteq> fst kv2 \<or> same_payload (snd kv1) (snd kv2)"
    using assms(1) by (simp add: list_all_iff)
  from this assms(2,3) have "fst (k, v1) \<noteq> fst (k, v2) \<or> same_payload (snd (k, v1)) (snd (k, v2))"
    by blast
  then show ?thesis by simp
qed

lemma map_eq_list_all2:
  "list_all2 (\<lambda>x y. f x = f y) xs ys \<Longrightarrow> map f xs = map f ys"
  by (induction xs ys rule: list_all2_induct) simp_all

lemma same_payload_serialize:
  "wf_json v1 \<Longrightarrow> wf_json v2 \<Longrightarrow> same_payload v1 v2 \<Longrightarrow>
   SerializeJSONProperty K v1 = SerializeJSONProperty K v2"
proof (induction v1 arbitrary: v2)
  case (JArr xs)
  show ?case
  proof (cases v2)
    case (JArr ys)
    have "list_all2 same_payload xs ys"
      using JArr.prems(3) \<open>v2 = JArr ys\<close> by simp
    then have "list_all2 (\<lambda>x y. SerializeJSONProperty K x = SerializeJSONProperty K y) xs ys"
    proof (rule list.rel_mono_strong)
      fix x y
      assume "x \<in> set xs" "y \<in> set ys" "same_payload x y"
      moreover have "wf_json x" "wf_json y"
        using JArr.prems(1,2) \<open>v2 = JArr ys\<close> \<open>x \<in> set xs\<close> \<open>y \<in> set ys\<close>
        by (auto simp: list_all_iff)
      ultimately show "SerializeJSONProperty K x = SerializeJSONProperty K y"
        using JArr.IH by blast
    qed
    then have "map (SerializeJSONProperty K) xs = map (SerializeJSONProperty K) ys"
      by (rule map_eq_list_all2)
    then show ?thesis
      using \<open>v2 = JArr ys\<close> by simp
  qed (use JArr.prems in simp_all)
next
  case (JObj m1)
  show ?case
  proof (cases v2)
    case (JObj m2)
    have d2: "distinct (map fst m2)"
      using JObj.prems(2) \<open>v2 = JObj m2\<close> by simp
    have keys: "set (map fst m1) = set (map fst m2)"
      using JObj.prems(3) \<open>v2 = JObj m2\<close> by simp
    have member: "map_option (\<lambda>v. QuoteJSONString P @ '':'' @ SerializeJSONProperty K v) (map_of m1 P)
          = map_option (\<lambda>v. QuoteJSONString P @ '':'' @ SerializeJSONProperty K v) (map_of m2 P)"
      for P
    proof (cases "map_of m1 P")
      case None
      then have "P \<notin> set (map fst m1)"
        by (simp add: map_of_eq_None_iff)
      then have "map_of m2 P = None"
        using keys by (simp add: map_of_eq_None_iff)
      then show ?thesis
        using None by simp
    next
      case (Some v1)
      then have in1: "(P, v1) \<in> set m1"
        by (rule map_of_SomeD)
      then have "P \<in> set (map fst m2)"
        using keys by force
      then obtain v2' where in2: "(P, v2') \<in> set m2"
        by auto
      then have s2: "map_of m2 P = Some v2'"
        using d2 by simp
      have "same_payload v1 v2'"
        using same_payload_members [OF _ in1 in2] JObj.prems(3) \<open>v2 = JObj m2\<close> by simp
      moreover have "wf_json v1" "wf_json v2'"
        using JObj.prems(1,2) \<open>v2 = JObj m2\<close> in1 in2 by (auto simp: list_all_iff)
      moreover have "v1 \<in> Basic_BNFs.snds (P, v1)"
        by (simp add: snds.simps)
      ultimately have "SerializeJSONProperty K v1 = SerializeJSONProperty K v2'"
        using JObj.IH [OF in1] by blast
      then show ?thesis
        using Some s2 by simp
    qed
    show ?thesis
      unfolding \<open>v2 = JObj m2\<close> SerializeJSONProperty.simps member ..
  qed (use JObj.prems in simp_all)
qed (cases v2; simp)+

lemma same_payload_keys:
  assumes "wf_json (JObj p1)" "wf_json (JObj p2)" "same_payload (JObj p1) (JObj p2)"
  shows "sort (map fst p1) = sort (map fst p2)"
proof (rule sorted_distinct_set_unique)
  show "distinct (sort (map fst p1))" "distinct (sort (map fst p2))"
    using assms(1,2) by simp_all
  show "set (sort (map fst p1)) = set (sort (map fst p2))"
    using assms(3) by simp
qed simp_all

text \<open>
  Claim C4.  Two payloads that are the same up to the order of their members,
  at the top level and in nested objects, are encoded to the same text, and
  so to the same token.  (In a nested object the members are written in the
  order of the sorted top-level names, whatever their order of insertion.)
\<close>

theorem encoding_order_independent:
  assumes "wf_json (JObj p1)" "wf_json (JObj p2)" "same_payload (JObj p1) (JObj p2)"
  shows "JSON_stringify (JObj p1) (sort (map fst p1)) = JSON_stringify (JObj p2) (sort (map fst p2)) \<and>
         signToken detached p1 privateKey = signToken detached p2 privateKey"
proof -
  have "JSON_stringify (JObj p1) (sort (map fst p1)) = JSON_stringify (JObj p2) (sort (map fst p2))"
    unfolding JSON_stringify_def same_payload_keys [OF assms]
    by (rule same_payload_serialize [OF assms])
  then show ?thesis
    by (simp add: signToken_def)
qed

theorem encoding_order_independent_witness:
  "wf_json (JObj demo_order_a) \<and> wf_json (JObj demo_order_b) \<and>
   same_payload (JObj demo_order_a) (JObj demo_order_b) \<and>
   demo_order_a \<noteq> demo_order_b \<and>
   JSON_stringify (JObj demo_order_a) (sort (map fst demo_order_a))
     = JSON_stringify (JObj demo_order_b) (sort (map fst demo_order_b)) \<and>
   signToken demo_detached demo_order_a ''k'' = signToken demo_detached demo_order_b ''k''"
proof -
  have w: "wf_json (JObj demo_order_a)" "wf_json (JObj demo_order_b)"
    by (simp_all add: demo_order_a_def demo_order_b_def)
  have s: "same_payload (JObj demo_order_a) (JObj demo_order_b)"
    by (auto simp: demo_order_a_def demo_order_b_def)
  have n: "demo_order_a \<noteq> demo_order_b"
    by (simp add: demo_order_a_def demo_order_b_def)
  show ?thesis
    using encoding_order_independent [OF w s, of demo_detached "''k''"] w s n by simp
qed

subsection \<open>C5: revoked keys\<close>

text \<open>
  Claim C5, as the code has it.  The validator has one verify key and no
  trust store: nothing of a trust entry but its public key reaches it.  A
  token signed with a key whose entry is marked revoked is verified like any
  other: against the audience it carries it is accepted at every clock
  reading up to its expiry, when its payload is within the limits of the
  interpreter.  No verification under that key fails with \<^verbatim>\<open>Revoked\<close>: the only
  messages of the validator are \<^verbatim>\<open>audience mismatch\<close> and \<^verbatim>\<open>expired\<close>.
\<close>

theorem revoked_key_accepted:
  assumes "key_pair detached sk (verify (te_public_key entry))"
    and "decodes decode"
    and "te_revoked entry"
    and "issue_token detached sk tid now req
         = Response 201 (JObj [(''token'', JStr compact), (''expires_at'', JNum e)])"
  shows "(\<exists>payload a.
            token_payload compact = Inr payload \<and> py_getitem payload ''aud'' = Inr a \<and>
            (\<forall>s. req_aud req = Some (JStr s) \<longrightarrow> a = JStr s) \<and>
            (within_limits limit payload \<longrightarrow>
               (\<forall>t. t \<le> e \<longrightarrow>
                  validate_compact_token decode (verify (te_public_key entry)) limit compact a t
                  = Inr (True, Payload payload)))) \<and>
         (\<forall>compact_token expected_aud t ok m.
            validate_compact_token decode (verify (te_public_key entry)) limit
              compact_token expected_aud t = Inr (ok, Message m) \<longrightarrow>
            m = ''audience mismatch'' \<or> m = ''expired'')"
proof -
  from validate_answer [OF assms(1,2,4), of limit] obtain payload a aud where
    p: "token_payload compact = Inr payload" "py_getitem payload ''aud'' = Inr a"
    and r: "req_aud req = Some aud" "a = select_properties token_keys aud" "py_eq a a"
    and v: "within_limits limit payload \<longrightarrow>
              (\<forall>expected_aud t.
                 validate_compact_token decode (verify (te_public_key entry)) limit compact
                   expected_aud t =
                   Inr (if py_ne a expected_aud then (False, Message ''audience mismatch'')
                        else if e < t then (False, Message ''expired'')
                        else (True, Payload payload)))"
    by blast
  have "\<forall>s. req_aud req = Some (JStr s) \<longrightarrow> a = JStr s"
    using r(1,2) by auto
  moreover have "within_limits limit payload \<longrightarrow>
               (\<forall>t. t \<le> e \<longrightarrow>
                  validate_compact_token decode (verify (te_public_key entry)) limit compact a t
                  = Inr (True, Payload payload))"
    using v r(3) by (simp add: py_ne_def)
  ultimately have "\<exists>payload a.
            token_payload compact = Inr payload \<and> py_getitem payload ''aud'' = Inr a \<and>
            (\<forall>s. req_aud req = Some (JStr s) \<longrightarrow> a = JStr s) \<and>
            (within_limits limit payload \<longrightarrow>
               (\<forall>t. t \<le> e \<longrightarrow>
                  validate_compact_token decode (verify (te_public_key entry)) limit compact a t
                  = Inr (True, Payload payload)))"
    using p by blast
  then show ?thesis
    using validate_messages by blast
qed

theorem revoked_key_accepted_witness:
  "key_pair demo_detached ''k'' (demo_verify (te_public_key demo_entry)) \<and>
   decodes base64url_decode \<and>
   te_revoked demo_entry \<and>
   issue_token demo_detached ''k'' ''tid-1'' 1000 demo_request
     = Response 201 (JObj [(''token'', JStr demo_token), (''expires_at'', JNum 4600)]) \<and>
   token_payload demo_token = Inr demo_payload \<and>
   py_getitem demo_payload ''aud'' = Inr (JStr ''app.example'') \<and>
   within_limits 1000 demo_payload \<and>
   validate_compact_token base64url_decode (demo_verify (te_public_key demo_entry)) 1000
     demo_token (JStr ''app.example'') 2000 = Inr (True, Payload demo_payload) \<and>
   validate_compact_token base64url_decode (demo_verify (te_public_key demo_entry)) 1000
     demo_token (JStr ''app.example'') 4601 = Inr (False, Message ''expired'')"
proof -
  have k: "key_pair demo_detached ''k'' (demo_verify (te_public_key demo_entry))"
    using demo_key_pair by (simp add: demo_entry_def)
  have r: "te_revoked demo_entry"
    by (simp add: demo_entry_def)
  have x: "validate_compact_token base64url_decode (demo_verify (te_public_key demo_entry)) 1000
     demo_token (JStr ''app.example'') 4601 = Inr (False, Message ''expired'')"
    by (simp add: demo_entry_def demo_validate)
  show ?thesis
    using revoked_key_accepted [where verify = demo_verify and limit = 1000,
            OF k demo_decodes r demo_issue]
      k demo_decodes r demo_issue demo_within demo_payload_aud x
    by (simp add: demo_token_payload)
qed

text \<open>
  Claim C5 as stated fails: the key \<^verbatim>\<open>k\<close> is marked revoked in its trust
  entry, and the token signed with it is accepted.
\<close>

theorem revoked_key_counterexample:
  "te_revoked demo_entry \<and>
   validate_compact_token base64url_decode (demo_verify (te_public_key demo_entry)) 1000
     demo_token (JStr ''app.example'') 2000 = Inr (True, Payload demo_payload)"
  by (simp add: demo_entry_def demo_validate)

subsection \<open>C6: the time to live\<close>

text \<open>
  Claim C6.  Every request that is answered 201 at time \<open>now\<close> gets a token
  whose payload has \<^verbatim>\<open>iat = now\<close> and \<^verbatim>\<open>exp = now + ttl\<close>, and the answer's
  \<^verbatim>\<open>expires_at\<close> is \<^verbatim>\<open>now + ttl\<close>, where \<open>ttl\<close> is the constant 3600, whatever
  the request holds.
\<close>

theorem issued_ttl:
  assumes "status (issue_token detached sk tid now req) = 201"
  shows "\<exists>compact payload.
           issue_token detached sk tid now req
           = Response 201 (JObj [(''token'', JStr compact), (''expires_at'', JNum (now + ttl))]) \<and>
           token_payload compact = Inr payload \<and>
           py_getitem payload ''iat'' = Inr (JNum now) \<and>
           py_getitem payload ''exp'' = Inr (JNum (now + ttl)) \<and>
           ttl = 3600"
  using issue_token_201 [OF assms]
  by (auto simp: token_payload_issued emitted_payload_members) (simp add: ttl_def)

theorem issued_ttl_witness:
  "status (issue_token demo_detached ''k'' ''tid-1'' 1000 demo_request) = 201 \<and>
   (\<exists>compact payload.
      issue_token demo_detached ''k'' ''tid-1'' 1000 demo_request
      = Response 201 (JObj [(''token'', JStr compact), (''expires_at'', JNum 4600)]) \<and>
      token_payload compact = Inr payload \<and>
      py_getitem payload ''iat'' = Inr (JNum 1000) \<and>
      py_getitem payload ''exp'' = Inr (JNum 4600))"
proof -
  have s: "status (issue_token demo_detached ''k'' ''tid-1'' 1000 demo_request) = 201"
    by (simp add: demo_issue)
  show ?thesis
    using issued_ttl [OF s] s by (simp add: ttl_def)
qed

subsection \<open>C7: the requests that are rejected\<close>




subsection \<open>C8: audience binding\<close>




subsection \<open>C9: the constant members of an issued token\<close>

text \<open>
  Claim C9 fails in its second half, for the reason of C3.  The token issued
  in the scenario carries \<^verbatim>\<open>att = "attestor.example.org"\<close>, but its \<^verbatim>\<open>flags\<close> is
  the empty object, not \<^verbatim>\<open>{"purpose": "safety"}\<close>.
\<close>

theorem issued_flags_empty:
  "issue_token demo_detached ''k'' ''tid-1'' 1000 demo_request
     = Response 201
         (JObj [(''token'', JStr ''eyJhZ2UiOiIxM18xNSIsImF0dCI6ImF0dGVzdG9yLmV4YW1wbGUub3JnIiwiYXVkIjoiYXBwLmV4YW1wbGUiLCJleHAiOjQ2MDAsImZsYWdzIjp7fSwiaWF0IjoxMDAwLCJub25jZSI6InI0bmQxIiwidGlkIjoidGlkLTEifQ.zA''),
                (''expires_at'', JNum 4600)]) \<and>
   token_payload demo_token = Inr demo_payload \<and>
   py_getitem demo_payload ''att'' = Inr (JStr ''attestor.example.org'') \<and>
   py_getitem demo_payload ''flags'' = Inr (JObj [])"
proof -
  have members: "py_getitem demo_payload ''att'' = Inr (JStr ''attestor.example.org'')"
    "py_getitem demo_payload ''flags'' = Inr (JObj [])"
    by (simp_all add: demo_payload_def)
  have answer: "issue_token demo_detached ''k'' ''tid-1'' 1000 demo_request
     = Response 201
         (JObj [(''token'', JStr ''eyJhZ2UiOiIxM18xNSIsImF0dCI6ImF0dGVzdG9yLmV4YW1wbGUub3JnIiwiYXVkIjoiYXBwLmV4YW1wbGUiLCJleHAiOjQ2MDAsImZsYWdzIjp7fSwiaWF0IjoxMDAwLCJub25jZSI6InI0bmQxIiwidGlkIjoidGlkLTEifQ.zA''),
                (''expires_at'', JNum 4600)])"
    using demo_issue by (simp only: demo_token_text)
  from answer demo_token_payload members show ?thesis
    by (intro conjI)
qed

subsection \<open>C10: totality of the validator\<close>

text \<open>
  Claim C10, as the code has it.  When \<^verbatim>\<open>base64url.decode\<close> and \<^verbatim>\<open>verify\<close> raise
  nothing but exceptions of the class \<^verbatim>\<open>Exception\<close>, the validator returns a
  pair for every token, every expected audience and every clock reading,
  unless the payload is outside the modelled fragment of JSON, where the
  model stops.  For a
  token with more or fewer than one \<^verbatim>\<open>.\<close> the pair is \<^verbatim>\<open>False\<close> with the text of
  a \<^verbatim>\<open>ValueError\<close>.  The first component is true only for a token of two
  parts that both decode, with a signature that verifies, and a payload that
  is JSON within the interpreter's limits, has an \<^verbatim>\<open>aud\<close> equal to the
  expected audience and an \<^verbatim>\<open>exp\<close> that is not less than the clock: so it
  is false when a part does not decode, when the payload is not JSON, and
  when the payload lacks \<^verbatim>\<open>aud\<close> or \<^verbatim>\<open>exp\<close>.
\<close>

theorem validate_total:
  assumes "raises_exceptions decode public_key"
  shows "((\<exists>ok info. validate_compact_token decode public_key limit compact_token expected_aud now
                      = Inr (ok, info)) \<or>
          (validate_compact_token decode public_key limit compact_token expected_aud now
             = Inl Unmodelled \<and>
           (\<exists>payload_b64 sig_b64 payload_json.
              compact_token = payload_b64 @ CHR ''.'' # sig_b64 \<and>
              decode payload_b64 = Inr payload_json \<and>
              py_json_loads limit payload_json = Inl Unmodelled))) \<and>
         (count_list compact_token CHR ''.'' \<noteq> 1 \<longrightarrow>
            validate_compact_token decode public_key limit compact_token expected_aud now
            = Inr (False, Raised ValueError)) \<and>
         (\<forall>info. validate_compact_token decode public_key limit compact_token expected_aud now
                   = Inr (True, info) \<longrightarrow>
            (\<exists>payload_b64 sig_b64 payload_json sig payload aud exp.
               compact_token = payload_b64 @ CHR ''.'' # sig_b64 \<and>
               CHR ''.'' \<notin> set payload_b64 \<and> CHR ''.'' \<notin> set sig_b64 \<and>
               decode payload_b64 = Inr payload_json \<and> decode sig_b64 = Inr sig \<and>
               public_key payload_json sig = None \<and>
               json_loads payload_json = Inr payload \<and> within_limits limit payload \<and>
               py_getitem payload ''aud'' = Inr aud \<and> py_eq aud expected_aud \<and>
               py_getitem payload ''exp'' = Inr exp \<and> py_lt_int exp now = Inr False \<and>
               info = Payload payload))"
proof (intro conjI impI allI)
  show "(\<exists>ok info. validate_compact_token decode public_key limit compact_token expected_aud now
                      = Inr (ok, info)) \<or>
          (validate_compact_token decode public_key limit compact_token expected_aud now
             = Inl Unmodelled \<and>
           (\<exists>payload_b64 sig_b64 payload_json.
              compact_token = payload_b64 @ CHR ''.'' # sig_b64 \<and>
              decode payload_b64 = Inr payload_json \<and>
              py_json_loads limit payload_json = Inl Unmodelled))"
  proof (cases "validate_body decode public_key limit compact_token expected_aud now")
    case (Inl e)
    from validate_body_raises [OF assms Inl] show ?thesis
      by (auto simp: validate_compact_token_def Inl)
  next
    case (Inr r)
    then show ?thesis
      by (cases r) (simp add: validate_compact_token_def)
  qed
next
  assume "count_list compact_token CHR ''.'' \<noteq> 1"
  then have "length (str_split CHR ''.'' compact_token) \<noteq> 2"
    by (simp add: str_split_length)
  then show "validate_compact_token decode public_key limit compact_token expected_aud now
             = Inr (False, Raised ValueError)"
    by (auto simp: validate_compact_token_def validate_body_def split: list.splits)
next
  fix info
  assume "validate_compact_token decode public_key limit compact_token expected_aud now
          = Inr (True, info)"
  then have "validate_body decode public_key limit compact_token expected_aud now
             = Inr (True, info)"
    by (auto simp: validate_compact_token_def split: sum.splits if_splits)
  then obtain payload_b64 sig_b64 payload_json sig payload aud exp where
    s: "str_split CHR ''.'' compact_token = [payload_b64, sig_b64]"
    and r: "decode payload_b64 = Inr payload_json" "decode sig_b64 = Inr sig"
      "public_key payload_json sig = None" "py_json_loads limit payload_json = Inr payload"
      "py_getitem payload ''aud'' = Inr aud" "\<not> py_ne aud expected_aud"
      "py_getitem payload ''exp'' = Inr exp" "py_lt_int exp now = Inr False"
      "info = Payload payload"
    by (auto simp: validate_body_def split: sum.splits list.splits if_splits option.splits)
  have t: "compact_token = payload_b64 @ CHR ''.'' # sig_b64"
    "CHR ''.'' \<notin> set payload_b64" "CHR ''.'' \<notin> set sig_b64"
    using str_split_twoD [OF s] by simp_all
  have j: "json_loads payload_json = Inr payload" "within_limits limit payload"
    using r(4) by (simp_all add: py_json_loads_Inr)
  have q: "py_eq aud expected_aud"
    using r(6) by (simp add: py_ne_def)
  from t j q r(1,2,3,5,7,8,9)
  show "\<exists>payload_b64 sig_b64 payload_json sig payload aud exp.
               compact_token = payload_b64 @ CHR ''.'' # sig_b64 \<and>
               CHR ''.'' \<notin> set payload_b64 \<and> CHR ''.'' \<notin> set sig_b64 \<and>
               decode payload_b64 = Inr payload_json \<and> decode sig_b64 = Inr sig \<and>
               public_key payload_json sig = None \<and>
               json_loads payload_json = Inr payload \<and> within_limits limit payload \<and>
               py_getitem payload ''aud'' = Inr aud \<and> py_eq aud expected_aud \<and>
               py_getitem payload ''exp'' = Inr exp \<and> py_lt_int exp now = Inr False \<and>
               info = Payload payload"
    by blast
qed

theorem validate_total_witness:
  "raises_exceptions base64url_decode (demo_verify ''k'') \<and>
   validate_compact_token base64url_decode (demo_verify ''k'') 1000 ''abc''
     (JStr ''app.example'') 2000 = Inr (False, Raised ValueError) \<and>
   validate_compact_token base64url_decode (demo_verify ''k'') 1000 ''a.b.c''
     (JStr ''app.example'') 2000 = Inr (False, Raised ValueError) \<and>
   validate_compact_token base64url_decode (demo_verify ''k'') 1000 demo_token
     (JStr ''app.example'') 2000 = Inr (True, Payload demo_payload) \<and>
   (\<exists>payload_b64 sig_b64 payload_json sig.
      demo_token = payload_b64 @ CHR ''.'' # sig_b64 \<and>
      base64url_decode payload_b64 = Inr payload_json \<and> base64url_decode sig_b64 = Inr sig \<and>
      demo_verify ''k'' payload_json sig = None \<and> json_loads payload_json = Inr demo_payload)"
proof -
  have c: "count_list ''abc'' CHR ''.'' \<noteq> 1" "count_list ''a.b.c'' CHR ''.'' \<noteq> 1"
    by simp_all
  have v: "validate_compact_token base64url_decode (demo_verify ''k'') 1000 demo_token
     (JStr ''app.example'') 2000 = Inr (True, Payload demo_payload)"
    by (simp add: demo_validate)
  show ?thesis
    using c v demo_raises_exceptions [of "''k''"]
      validate_total [OF demo_raises_exceptions, of "''k''" 1000 "''abc''"
        "JStr ''app.example''" 2000]
      validate_total [OF demo_raises_exceptions, of "''k''" 1000 "''a.b.c''"
        "JStr ''app.example''" 2000]
      validate_total [OF demo_raises_exceptions, of "''k''" 1000 demo_token
        "JStr ''app.example''" 2000]
    by (simp del: count_list.simps) blast
qed

text \<open>
  Claim C10 as stated fails for a payload that lacks required fields other
  than \<^verbatim>\<open>aud\<close> and \<^verbatim>\<open>exp\<close>: the token whose payload is
  \<^verbatim>\<open>{"aud":"app.example","exp":4600}\<close>, signed under the key \<^verbatim>\<open>k\<close>, is malformed
  in the words of the spec and is accepted.
\<close>

theorem missing_fields_accepted_counterexample:
  "demo_bare_token = ''eyJhdWQiOiJhcHAuZXhhbXBsZSIsImV4cCI6NDYwMH0.ew'' \<and>
   token_payload demo_bare_token
     = Inr (JObj [(''aud'', JStr ''app.example''), (''exp'', JNum 4600)]) \<and>
   lacks_field (JObj [(''aud'', JStr ''app.example''), (''exp'', JNum 4600)]) \<and>
   malformed demo_bare_token \<and>
   validate_compact_token base64url_decode (demo_verify ''k'') 1000 demo_bare_token
     (JStr ''app.example'') 2000
     = Inr (True, Payload (JObj [(''aud'', JStr ''app.example''), (''exp'', JNum 4600)]))"
proof -
  have l: "lacks_field (JObj demo_bare_obj)"
    by (simp add: demo_bare_obj_def payload_fields_def)
  have p: "token_payload demo_bare_token = Inr (JObj demo_bare_obj)"
    unfolding demo_bare_token_def
    using demo_bare_loads by (simp add: token_payload_signToken json_loads_JSON_stringify)
  have m: "malformed demo_bare_token"
    unfolding demo_bare_token_def by (rule malformed_signToken [OF demo_bare_loads l])
  have v: "validate_compact_token base64url_decode (demo_verify ''k'') 1000 demo_bare_token
     (JStr ''app.example'') 2000 = Inr (True, Payload (JObj demo_bare_obj))"
    by (simp add: demo_bare_validate)
  from demo_bare_token_text p l m v show ?thesis
    by (simp only: demo_bare_obj_def)
qed

end
